theory Spec2Isabelle
  imports Main "HOL-Library.Sublist"
begin

section \<open>The lxml element tree, as profile\_delta.py uses it\<close>

text \<open>
  An lxml tag is a namespace (absent for an unqualified tag) and a local name: the
  tag \<^verbatim>\<open>{http://soap.sforce.com/2006/04/metadata}classAccesses\<close> is
  \<open>QName (Some SF_URI) ''classAccesses''\<close>, the tag \<^verbatim>\<open>label\<close> is
  \<open>QName None ''label''\<close>.
\<close>

datatype qname = QName (ns: "string option") (local_name: string)

text \<open>
  An element below the root level is held by value, with its whole subtree: its tag, its
  attributes, its text (\<open>None\<close> for Python's \<^verbatim>\<open>None\<close>), its tail and its
  children in document order.
\<close>

datatype xml =
  Element (tag: qname) (attrib: "(string \<times> string) list") (el_text: "string option")
    (el_tail: "string option") (el_children: "xml list")

text \<open>
  The program holds references to two kinds of objects: root elements (\<open>source\<close>,
  \<open>target\<close>, the output \<open>root\<close>) and the elements directly under a root (the
  \<open>parent\<close> of the traversal). Both live in a store indexed by addresses. A root has a
  tag and a list of references to its children; an element under a root has its value
  and the reference \<open>getparent()\<close> returns. Below that level the program only reads
  (\<open>parent.find(...)\<close>, \<open>child.text\<close>) and copies (\<open>deepcopy\<close>), so the subtree of
  an element under a root is a value. \<open>nxt\<close> is the next free address.
\<close>

type_synonym addr = nat

record heap =
  root_tag :: "addr \<Rightarrow> qname"
  kids :: "addr \<Rightarrow> addr list"
  val :: "addr \<Rightarrow> xml"
  par :: "addr \<Rightarrow> addr option"
  nxt :: addr

datatype exn = IOError | XMLSyntaxError | ValueError | TypeError | AttributeError
  | SystemExit nat

text \<open>tools\_lxml.py: the namespace and the prefix.\<close>

definition SF_URI :: string where
  "SF_URI = ''http://soap.sforce.com/2006/04/metadata''"

definition SF_PREFIX :: string where
  "SF_PREFIX = ''md''"

definition namespace_declare :: "bool \<Rightarrow> (string \<times> string) list option" where
  "namespace_declare test_mode = (if test_mode then None else Some [(SF_PREFIX, SF_URI)])"

definition namespace_prepend :: "string \<Rightarrow> bool \<Rightarrow> string" where
  "namespace_prepend match_string test_mode =
     (if test_mode then match_string else SF_PREFIX @ '':'' @ match_string)"

text \<open>
  The tag that the one-step path \<open>namespace_prepend name test_mode\<close> selects under the
  prefix map \<open>namespace_declare test_mode\<close>: lxml resolves \<^verbatim>\<open>md:name\<close> through the
  map to the tag \<^verbatim>\<open>{SF_URI}name\<close>, and in test mode the bare \<^verbatim>\<open>name\<close> selects the
  elements whose tag has no namespace.
\<close>

definition path_tag :: "bool \<Rightarrow> string \<Rightarrow> qname" where
  "path_tag test_mode name = QName (if test_mode then None else Some SF_URI) name"

text \<open>\<open>root.findall(path, ns)\<close>: the children of the root with the tag, in order.\<close>

definition findall :: "heap \<Rightarrow> addr \<Rightarrow> qname \<Rightarrow> addr list" where
  "findall h r q = filter (\<lambda>a. tag (val h a) = q) (kids h r)"

text \<open>\<open>parent.find(path, ns)\<close>: the first child with the tag, or \<open>None\<close>.\<close>

definition find_child :: "xml \<Rightarrow> qname \<Rightarrow> xml option" where
  "find_child p q = List.find (\<lambda>c. tag c = q) (el_children p)"

definition getparent :: "heap \<Rightarrow> addr \<Rightarrow> addr option" where
  "getparent h a = par h a"

text \<open>
  \<open>r.remove(a)\<close>: lxml raises \<open>ValueError\<close> when \<open>a\<close> is not a child of \<open>r\<close>, and
  otherwise unlinks \<open>a\<close>.
\<close>

definition remove_elem :: "heap \<Rightarrow> addr \<Rightarrow> addr \<Rightarrow> exn + heap" where
  "remove_elem h r a =
     (if par h a \<noteq> Some r then Inl ValueError
      else Inr (h\<lparr>kids := (kids h)(r := removeAll a (kids h r)), par := (par h)(a := None)\<rparr>))"

text \<open>\<open>deepcopy(a)\<close>: a new element with the same value and no parent.\<close>

definition deepcopy :: "heap \<Rightarrow> addr \<Rightarrow> heap \<times> addr" where
  "deepcopy h a =
     (h\<lparr>val := (val h)(nxt h := val h a), par := (par h)(nxt h := None), nxt := Suc (nxt h)\<rparr>,
      nxt h)"

text \<open>
  \<open>r.append(a)\<close>: lxml moves an element that already has a parent; it is unlinked
  there and becomes the last child of \<open>r\<close>.
\<close>

definition append_elem :: "heap \<Rightarrow> addr \<Rightarrow> addr \<Rightarrow> heap" where
  "append_elem h r a =
     (let h1 = (case par h a of
                  None \<Rightarrow> h
                | Some p \<Rightarrow> h\<lparr>kids := (kids h)(p := removeAll a (kids h p))\<rparr>)
      in h1\<lparr>kids := (kids h1)(r := kids h1 r @ [a]), par := (par h1)(a := Some r)\<rparr>)"

text \<open>\<open>etree.SubElement(r, tag)\<close>: a new empty element, appended to \<open>r\<close>.\<close>

definition SubElement :: "heap \<Rightarrow> addr \<Rightarrow> qname \<Rightarrow> heap \<times> addr" where
  "SubElement h r q =
     (h\<lparr>kids := (kids h)(r := kids h r @ [nxt h]),
        val := (val h)(nxt h := Element q [] None None []),
        par := (par h)(nxt h := Some r),
        nxt := Suc (nxt h)\<rparr>,
      nxt h)"

definition set_text :: "heap \<Rightarrow> addr \<Rightarrow> string \<Rightarrow> heap" where
  "set_text h a t =
     h\<lparr>val := (val h)(a := Element (tag (val h a)) (attrib (val h a)) (Some t)
                          (el_tail (val h a)) (el_children (val h a)))\<rparr>"

text \<open>tools\_lxml.py, \<open>sforce_root\<close>: a new root in the metadata namespace.\<close>

definition sforce_root :: "heap \<Rightarrow> string \<Rightarrow> heap \<times> addr" where
  "sforce_root h root_name =
     (h\<lparr>root_tag := (root_tag h)(nxt h := QName (Some SF_URI) root_name),
        kids := (kids h)(nxt h := []),
        nxt := Suc (nxt h)\<rparr>,
      nxt h)"

section \<open>The schema registry\<close>

text \<open>
  The dictionary \<open>PARENTS\<close>, as an association list in the order the source writes
  it. A loop over the dictionary visits every key once, in an order the interpreter fixes
  from the hashes of the keys; the model takes the written order. What is proved below of
  pruning does not depend on the order, and of the output only the order of the families
  in it does.
\<close>

definition PARENTS :: "(string \<times> string list) list" where
  "PARENTS =
     [(''applicationVisibilities'', [''application'', ''visible'']),
      (''classAccesses'', [''apexClass'', ''enabled'']),
      (''fieldPermissions'', [''field'', ''readable'']),
      (''layoutAssignments'', [''layout'', ''None'']),
      (''objectPermissions'', [''object'', ''allowRead'']),
      (''pageAccesses'', [''apexPage'', ''enabled'']),
      (''recordTypeVisibilities'', [''recordType'', ''visible'']),
      (''tabVisibilities'', [''tab'', ''visibility''])]"

definition EXTRACT_CHILD :: nat where "EXTRACT_CHILD = 0"
definition FETCH_CHILD :: nat where "FETCH_CHILD = 0"
definition PRUNE_CHILD :: nat where "PRUNE_CHILD = 1"

section \<open>The traversal and its three strategies\<close>

text \<open>
  The state of a traversal: the store and the set \<open>my_names\<close>. \<open>my_target\<close> is a
  parameter of the one strategy that reads it. \<open>PruneFalseElements\<close> is given
  \<open>None\<close> for \<open>names\<close> and never reads it; the model passes the empty set.
\<close>

type_synonym state = "heap \<times> string set"

definition ExtractElements_do_yield ::
  "addr \<Rightarrow> state \<Rightarrow> addr \<Rightarrow> string \<Rightarrow> exn + state" where
  "ExtractElements_do_yield my_target s parent child_text =
     (if child_text \<in> snd s
      then (case deepcopy (fst s) parent of
              (h1, c) \<Rightarrow> Inr (append_elem h1 my_target c, snd s))
      else Inr s)"

definition FetchElements_do_yield :: "state \<Rightarrow> addr \<Rightarrow> string \<Rightarrow> exn + state" where
  "FetchElements_do_yield s parent child_text = Inr (fst s, insert child_text (snd s))"

definition PruneFalseElements_do_yield :: "state \<Rightarrow> addr \<Rightarrow> string \<Rightarrow> exn + state" where
  "PruneFalseElements_do_yield s parent child_text =
     (if child_text \<in> {''false'', ''None''}
      then (case getparent (fst s) parent of
              None \<Rightarrow> Inl AttributeError
            | Some p \<Rightarrow>
                (case remove_elem (fst s) p parent of
                   Inl e \<Rightarrow> Inl e
                 | Inr h' \<Rightarrow> Inr (h', snd s)))
      else Inr s)"

text \<open>
  The loop of \<open>FindElements.do\<close> over \<open>pv\<close>: the child is looked up in the store as
  it is when the element is visited.
\<close>

fun do_loop ::
  "(state \<Rightarrow> addr \<Rightarrow> string \<Rightarrow> exn + state) \<Rightarrow> qname \<Rightarrow> addr list \<Rightarrow> state \<Rightarrow> exn + state"
where
  "do_loop do_yield child_name_match [] s = Inr s"
| "do_loop do_yield child_name_match (parent # pv) s =
     (case find_child (val (fst s) parent) child_name_match of
        None \<Rightarrow> do_loop do_yield child_name_match pv s
      | Some child \<Rightarrow>
          (case el_text child of
             None \<Rightarrow> do_loop do_yield child_name_match pv s
           | Some child_text \<Rightarrow>
               (case do_yield s parent child_text of
                  Inl e \<Rightarrow> Inl e
                | Inr s' \<Rightarrow> do_loop do_yield child_name_match pv s')))"

definition FindElements_do ::
  "(state \<Rightarrow> addr \<Rightarrow> string \<Rightarrow> exn + state) \<Rightarrow> bool \<Rightarrow> addr \<Rightarrow> string \<Rightarrow> string \<Rightarrow>
   state \<Rightarrow> exn + state" where
  "FindElements_do do_yield my_test_mode my_source parent_name child_name s =
     do_loop do_yield (path_tag my_test_mode child_name)
       (findall (fst s) my_source (path_tag my_test_mode parent_name)) s"

section \<open>Prune, fetch, diff and extract\<close>

text \<open>
  \<open>prune_elements\<close>: one \<open>PruneFalseElements\<close> traversal for every key of
  \<open>PARENTS\<close>, on the family's prune child. A key that the dictionary does not hold
  would make \<open>children\<close> \<open>None\<close>, and indexing it a \<open>TypeError\<close>.
\<close>

fun prune_loop :: "bool \<Rightarrow> string list \<Rightarrow> heap \<Rightarrow> addr \<Rightarrow> exn + heap \<times> addr" where
  "prune_loop test_mode [] h root = Inr (h, root)"
| "prune_loop test_mode (parent_name # rest) h root =
     (case map_of PARENTS parent_name of
        None \<Rightarrow> Inl TypeError
      | Some children \<Rightarrow>
          (case FindElements_do PruneFalseElements_do_yield test_mode root parent_name
                  (children ! PRUNE_CHILD) (h, {}) of
             Inl e \<Rightarrow> Inl e
           | Inr s \<Rightarrow> prune_loop test_mode rest (fst s) root))"

definition prune_elements :: "heap \<Rightarrow> addr \<Rightarrow> bool \<Rightarrow> exn + heap \<times> addr" where
  "prune_elements h root test_mode = prune_loop test_mode (map fst PARENTS) h root"

definition fetch_elements ::
  "heap \<Rightarrow> addr \<Rightarrow> string \<Rightarrow> bool \<Rightarrow> exn + heap \<times> string set" where
  "fetch_elements h root parent_name test_mode =
     (case map_of PARENTS parent_name of
        None \<Rightarrow> Inl TypeError
      | Some children \<Rightarrow>
          FindElements_do FetchElements_do_yield test_mode root parent_name
            (children ! FETCH_CHILD) (h, {}))"

definition diff_elements ::
  "heap \<Rightarrow> addr \<Rightarrow> addr \<Rightarrow> string \<Rightarrow> bool \<Rightarrow> exn + heap \<times> string set" where
  "diff_elements h source target parent_name test_mode =
     (case fetch_elements h source parent_name test_mode of
        Inl e \<Rightarrow> Inl e
      | Inr (h1, source_names) \<Rightarrow>
          (case fetch_elements h1 target parent_name test_mode of
             Inl e \<Rightarrow> Inl e
           | Inr (h2, target_names) \<Rightarrow> Inr (h2, target_names - source_names)))"

fun extract_loop ::
  "bool \<Rightarrow> addr \<Rightarrow> addr \<Rightarrow> addr \<Rightarrow> string list \<Rightarrow> heap \<Rightarrow> exn + heap \<times> addr" where
  "extract_loop test_mode source_root target_root root [] h = Inr (h, root)"
| "extract_loop test_mode source_root target_root root (parent_name # rest) h =
     (case map_of PARENTS parent_name of
        None \<Rightarrow> Inl TypeError
      | Some children \<Rightarrow>
          (case diff_elements h source_root target_root parent_name test_mode of
             Inl e \<Rightarrow> Inl e
           | Inr (h1, names) \<Rightarrow>
               (case FindElements_do (ExtractElements_do_yield root) test_mode target_root
                       parent_name (children ! EXTRACT_CHILD) (h1, names) of
                  Inl e \<Rightarrow> Inl e
                | Inr s \<Rightarrow> extract_loop test_mode source_root target_root root rest (fst s))))"

definition extract_elements ::
  "heap \<Rightarrow> addr \<Rightarrow> addr \<Rightarrow> string \<Rightarrow> bool \<Rightarrow> exn + heap \<times> addr" where
  "extract_elements h source_root target_root root_name test_mode =
     (case sforce_root h root_name of
        (h0, root) \<Rightarrow>
          extract_loop test_mode source_root target_root root (map fst PARENTS) h0)"

section \<open>Predicates and closed forms used in the statements\<close>

definition child_text :: "xml \<Rightarrow> qname \<Rightarrow> string option" where
  "child_text p q = (case find_child p q of None \<Rightarrow> None | Some c \<Rightarrow> el_text c)"

definition well_formed :: "heap \<Rightarrow> addr \<Rightarrow> bool" where
  "well_formed h r \<longleftrightarrow>
     r < nxt h \<and> distinct (kids h r) \<and> (\<forall>a \<in> set (kids h r). a < nxt h \<and> par h a = Some r)"

text \<open>
  The negation of the test \<open>child is not None and child.text is not None\<close> of the
  traversal: the element has no child with the tag, or the first one has no text.
\<close>

definition skipped :: "xml \<Rightarrow> qname \<Rightarrow> bool" where
  "skipped p q \<longleftrightarrow> (case find_child p q of None \<Rightarrow> True | Some child \<Rightarrow> el_text child = None)"

text \<open>The store without the element \<open>a\<close> under the root \<open>r\<close>.\<close>

definition without :: "heap \<Rightarrow> addr \<Rightarrow> addr \<Rightarrow> heap" where
  "without h r a = h\<lparr>kids := (kids h)(r := removeAll a (kids h r))\<rparr>"

definition gate_false :: "qname \<Rightarrow> xml \<Rightarrow> bool" where
  "gate_false q v \<longleftrightarrow> child_text v q = Some ''false'' \<or> child_text v q = Some ''None''"

definition detach :: "heap \<Rightarrow> addr \<Rightarrow> (addr \<Rightarrow> bool) \<Rightarrow> heap" where
  "detach h r P =
     h\<lparr>kids := (kids h)(r := filter (\<lambda>a. \<not> P a) (kids h r)),
       par := (\<lambda>a. if P a then None else par h a)\<rparr>"

definition pruned :: "bool \<Rightarrow> string list \<Rightarrow> xml \<Rightarrow> bool" where
  "pruned test_mode names v \<longleftrightarrow>
     (\<exists>n \<in> set names. case map_of PARENTS n of
        None \<Rightarrow> False
      | Some cs \<Rightarrow> tag v = path_tag test_mode n \<and>
          gate_false (path_tag test_mode (cs ! PRUNE_CHILD)) v)"

text \<open>
  The values of the children of a root, in order; the elements of one family among them;
  the set of texts the traversal finds in a list of elements; whether the extract strategy
  copies an element; a store after new elements with the given values were appended to a
  root; and the elements \<open>extract_elements\<close> copies for one family, from the values of
  the source's and the target's children.
\<close>

definition content :: "heap \<Rightarrow> addr \<Rightarrow> xml list" where
  "content h r = map (val h) (kids h r)"

definition family :: "bool \<Rightarrow> string \<Rightarrow> xml list \<Rightarrow> xml list" where
  "family test_mode parent_name vs = filter (\<lambda>v. tag v = path_tag test_mode parent_name) vs"

definition name_set :: "qname \<Rightarrow> xml list \<Rightarrow> string set" where
  "name_set q vs = set (concat (map (\<lambda>v. case child_text v q of None \<Rightarrow> [] | Some t \<Rightarrow> [t]) vs))"

definition selected :: "string set \<Rightarrow> qname \<Rightarrow> xml \<Rightarrow> bool" where
  "selected names q v = (case child_text v q of None \<Rightarrow> False | Some t \<Rightarrow> t \<in> names)"

definition graft :: "heap \<Rightarrow> addr \<Rightarrow> xml list \<Rightarrow> heap" where
  "graft h r vs =
     h\<lparr>kids := (kids h)(r := kids h r @ [nxt h ..< nxt h + length vs]),
       val := (\<lambda>a. if nxt h \<le> a \<and> a < nxt h + length vs then vs ! (a - nxt h) else val h a),
       par := (\<lambda>a. if nxt h \<le> a \<and> a < nxt h + length vs then Some r else par h a),
       nxt := nxt h + length vs\<rparr>"

definition extracted :: "bool \<Rightarrow> string \<Rightarrow> xml list \<Rightarrow> xml list \<Rightarrow> xml list" where
  "extracted test_mode parent_name svs tvs =
     (case map_of PARENTS parent_name of
        None \<Rightarrow> []
      | Some cs \<Rightarrow>
          filter (selected (name_set (path_tag test_mode (cs ! EXTRACT_CHILD)) (family test_mode parent_name tvs)
                    - name_set (path_tag test_mode (cs ! FETCH_CHILD)) (family test_mode parent_name svs))
                   (path_tag test_mode (cs ! EXTRACT_CHILD)))
            (family test_mode parent_name tvs))"

section \<open>Files and the main function\<close>

text \<open>
  What a path holds: a well-formed document, given by the tag of its root and the elements
  under the root, or content that is not well-formed XML. A path with no file is absent
  from the map. The world of a run is the file system, the paths that can be opened for
  writing, the lines printed, and the store.
\<close>

datatype file_content = Document qname "xml list" | Malformed

record world =
  files :: "string \<Rightarrow> file_content option"
  writable :: "string \<Rightarrow> bool"
  stdout :: "string list"
  mem :: heap

text \<open>
  \<open>etree.parse(path)\<close> followed by \<open>getroot()\<close>. lxml raises \<open>IOError\<close> when the
  file cannot be read and \<open>XMLSyntaxError\<close> when its content is not well-formed;
  \<open>XMLSyntaxError\<close> derives from \<open>SyntaxError\<close>, not from \<open>IOError\<close>. A
  well-formed document becomes a new root with its elements in document order.
\<close>

definition load :: "heap \<Rightarrow> qname \<Rightarrow> xml list \<Rightarrow> heap \<times> addr" where
  "load h rt vs =
     (graft (h\<lparr>root_tag := (root_tag h)(nxt h := rt), kids := (kids h)(nxt h := []),
               nxt := Suc (nxt h)\<rparr>) (nxt h) vs,
      nxt h)"

definition etree_parse :: "(string \<Rightarrow> file_content option) \<Rightarrow> heap \<Rightarrow> string \<Rightarrow> exn + heap \<times> addr" where
  "etree_parse fs h path =
     (case fs path of
        None \<Rightarrow> Inl IOError
      | Some Malformed \<Rightarrow> Inl XMLSyntaxError
      | Some (Document rt vs) \<Rightarrow> Inr (load h rt vs))"

definition prune_tree :: "(string \<Rightarrow> file_content option) \<Rightarrow> heap \<Rightarrow> string \<Rightarrow> exn + heap \<times> addr" where
  "prune_tree fs h profile_path =
     (case etree_parse fs h profile_path of
        Inl e \<Rightarrow> Inl e
      | Inr (h1, profile_root) \<Rightarrow> prune_elements h1 profile_root False)"

definition main_check_values ::
  "string option \<Rightarrow> string option \<Rightarrow> string option \<Rightarrow> exn + unit" where
  "main_check_values profile_path_source profile_path_target profile_path_output =
     (if profile_path_source = None \<or> profile_path_target = None \<or> profile_path_output = None
      then Inl ValueError else Inr ())"

text \<open>
  \<open>except IOError\<close> catches \<open>IOError\<close> only; any other exception of
  \<open>prune_tree\<close> leaves the function as it is.
\<close>

definition main_prune_source :: "world \<Rightarrow> string \<Rightarrow> (exn + addr) \<times> world" where
  "main_prune_source w profile_path_source =
     (case prune_tree (files w) (mem w) profile_path_source of
        Inl e \<Rightarrow>
          (if e = IOError
           then (Inl (SystemExit 1),
                 w\<lparr>stdout := stdout w @ [profile_path_source @ '' is not available.'']\<rparr>)
           else (Inl e, w))
      | Inr (h, source_root) \<Rightarrow> (Inr source_root, w\<lparr>mem := h\<rparr>))"

definition main_prune_target :: "world \<Rightarrow> string \<Rightarrow> (exn + addr) \<times> world" where
  "main_prune_target w profile_path_target =
     (case prune_tree (files w) (mem w) profile_path_target of
        Inl e \<Rightarrow>
          (if e = IOError
           then (Inl (SystemExit 1),
                 w\<lparr>stdout := stdout w @ [profile_path_target @ '' is not available.'']\<rparr>)
           else (Inl e, w))
      | Inr (h, target_root) \<Rightarrow> (Inr target_root, w\<lparr>mem := h\<rparr>))"

text \<open>\<open>'.profile' in profile_path_output\<close>: the path contains the string.\<close>

definition is_profile :: "string \<Rightarrow> bool" where
  "is_profile profile_path_output = sublist ''.profile'' profile_path_output"

definition root_name :: "string \<Rightarrow> string" where
  "root_name profile_path_output =
     (if is_profile profile_path_output then ''Profile'' else ''PermissionSet'')"

text \<open>
  \<open>save_tree\<close>: \<open>open(filename, 'w')\<close> raises \<open>IOError\<close> when the path cannot be
  written; otherwise the file holds the serialised tree, given here by the tag of the root
  and the values of its children.
\<close>

definition save_tree :: "world \<Rightarrow> addr \<Rightarrow> string \<Rightarrow> (exn + unit) \<times> world" where
  "save_tree w root filename =
     (if writable w filename
      then (Inr (),
            w\<lparr>files := (files w)(filename \<mapsto> Document (root_tag (mem w) root) (content (mem w) root))\<rparr>)
      else (Inl IOError, w))"

text \<open>
  The three statements of \<open>main\<close> that add the label: \<open>SubElement\<close> already appends
  the new element, and the \<open>append\<close> that follows moves it to the end again.
\<close>

definition add_label :: "heap \<Rightarrow> addr \<Rightarrow> heap" where
  "add_label h root =
     (case SubElement h root (QName None ''label'') of
        (h1, my_element) \<Rightarrow>
          append_elem (set_text h1 my_element ''Community Hub Guest'') root my_element)"

definition main ::
  "world \<Rightarrow> string option \<Rightarrow> string option \<Rightarrow> string option \<Rightarrow> (exn + int) \<times> world" where
  "main w profile_path_source profile_path_target profile_path_output =
     (case main_check_values profile_path_source profile_path_target profile_path_output of
        Inl e \<Rightarrow> (Inl e, w)
      | Inr u \<Rightarrow>
          (case main_prune_source w (the profile_path_source) of
             (Inl e, w1) \<Rightarrow> (Inl e, w1)
           | (Inr source_root, w1) \<Rightarrow>
               (case main_prune_target w1 (the profile_path_target) of
                  (Inl e, w2) \<Rightarrow> (Inl e, w2)
                | (Inr target_root, w2) \<Rightarrow>
                    (case extract_elements (mem w2) source_root target_root
                            (root_name (the profile_path_output)) False of
                       Inl e \<Rightarrow> (Inl e, w2)
                     | Inr (h3, root) \<Rightarrow>
                         (case save_tree
                                 (w2\<lparr>mem := if \<not> is_profile (the profile_path_output)
                                              then add_label h3 root else h3\<rparr>)
                                 root (the profile_path_output) of
                            (Inl e, w3) \<Rightarrow> (Inl e, w3)
                          | (Inr u, w3) \<Rightarrow> (Inr 0, w3))))))"

text \<open>
  The elements \<open>prune_elements\<close> leaves, and the elements of the output of a run, from the
  values of the source's and the target's elements as parsed.
\<close>

definition pruned_content :: "xml list \<Rightarrow> xml list" where
  "pruned_content vs = filter (\<lambda>v. \<not> pruned False (map fst PARENTS) v) vs"

definition delta :: "bool \<Rightarrow> xml list \<Rightarrow> xml list \<Rightarrow> xml list" where
  "delta test_mode svs tvs =
     concat (map (\<lambda>pn. extracted test_mode pn svs tvs) (map fst PARENTS))"

definition label_element :: xml where
  "label_element = Element (QName None ''label'') [] (Some ''Community Hub Guest'') None []"

text \<open>
  Nothing that was allocated in the store \<open>h\<close> differs in the store \<open>h'\<close>: every
  address below \<open>nxt h\<close> has the same children, value, parent and root tag.
\<close>

definition preserves :: "heap \<Rightarrow> heap \<Rightarrow> bool" where
  "preserves h h' \<longleftrightarrow>
     nxt h \<le> nxt h' \<and>
     (\<forall>a \<in> {..<nxt h}. kids h' a = kids h a \<and> val h' a = val h a \<and> par h' a = par h a \<and>
        root_tag h' a = root_tag h a)"

section \<open>The example documents of the doctests\<close>

definition empty_heap :: heap where
  "empty_heap =
     \<lparr>root_tag = (\<lambda>a. QName None []), kids = (\<lambda>a. []),
      val = (\<lambda>a. Element (QName None []) [] None None []), par = (\<lambda>a. None), nxt = 0\<rparr>"

text \<open>
  \<open>etree.SubElement(parent, tag)\<close> on an element under a root, followed by the
  assignment of its text: the value of \<open>parent\<close> gains a last child.
\<close>

definition sub_element_text :: "heap \<Rightarrow> addr \<Rightarrow> string \<Rightarrow> string \<Rightarrow> heap" where
  "sub_element_text h my_parent my_tag my_text =
     h\<lparr>val := (val h)(my_parent :=
          Element (tag (val h my_parent)) (attrib (val h my_parent)) (el_text (val h my_parent))
            (el_tail (val h my_parent))
            (el_children (val h my_parent) @ [Element (QName None my_tag) [] (Some my_text) None []]))\<rparr>"

definition example_element ::
  "heap \<Rightarrow> addr \<Rightarrow> string \<Rightarrow> string \<Rightarrow> string \<Rightarrow> string \<Rightarrow> string \<Rightarrow> heap \<times> addr" where
  "example_element h root parent_name key_name key_text gate_name gate_text =
     (case SubElement h root (QName None parent_name) of
        (h1, parent) \<Rightarrow>
          (sub_element_text (sub_element_text h1 parent key_name key_text) parent gate_name gate_text,
           root))"

definition example_class_access_element ::
  "heap \<Rightarrow> addr \<Rightarrow> string \<Rightarrow> string \<Rightarrow> heap \<times> addr" where
  "example_class_access_element h root class_name is_enabled =
     example_element h root ''classAccesses'' ''apexClass'' class_name ''enabled'' is_enabled"

definition example_profile_metadata_source :: "heap \<Rightarrow> heap \<times> addr" where
  "example_profile_metadata_source h =
     (case sforce_root h ''Profile'' of
        (h0, root) \<Rightarrow>
          (case example_class_access_element h0 root ''ARTransactionsTest'' ''false'' of
             (h1, r1) \<Rightarrow> example_class_access_element h1 root ''AccountAddressManager'' ''true''))"

definition example_profile_metadata_target :: "heap \<Rightarrow> heap \<times> addr" where
  "example_profile_metadata_target h =
     (case example_profile_metadata_source h of
        (h0, root) \<Rightarrow>
          (case example_class_access_element h0 root ''AccountHierarchyBuilder'' ''true'' of
             (h1, r1) \<Rightarrow> example_class_access_element h1 root ''TransactionTestData'' ''false''))"

text \<open>
  A profile with two \<open>layoutAssignments\<close> elements: the second one of the sample
  output in the module's documentation, and one that has a child named \<open>None\<close>.
\<close>

definition example_layout_assignments :: "heap \<Rightarrow> heap \<times> addr" where
  "example_layout_assignments h =
     (case sforce_root h ''Profile'' of
        (h0, root) \<Rightarrow>
          (case example_element h0 root ''layoutAssignments'' ''layout'' ''Account-Account Layout''
                  ''recordType'' ''Account.Business_Account'' of
             (h1, r1) \<Rightarrow>
               example_element h1 root ''layoutAssignments'' ''layout'' ''Case-Case Layout''
                 ''None'' ''None''))"

text \<open>
  A store that holds the source and the target of the doctests, and one whose target
  names the same class in two \<open>classAccesses\<close> elements.
\<close>

definition example_pair :: "heap \<times> addr \<times> addr" where
  "example_pair =
     (case example_profile_metadata_source empty_heap of
        (h1, source) \<Rightarrow>
          (case example_profile_metadata_target h1 of
             (h2, target) \<Rightarrow> (h2, source, target)))"

definition example_duplicate_target :: "heap \<Rightarrow> heap \<times> addr" where
  "example_duplicate_target h =
     (case sforce_root h ''Profile'' of
        (h0, root) \<Rightarrow>
          (case example_class_access_element h0 root ''AccountHierarchyBuilder'' ''true'' of
             (h1, r1) \<Rightarrow> example_class_access_element h1 root ''AccountHierarchyBuilder'' ''true''))"

definition example_duplicates :: "heap \<times> addr \<times> addr" where
  "example_duplicates =
     (case example_profile_metadata_source empty_heap of
        (h1, source) \<Rightarrow>
          (case example_duplicate_target h1 of
             (h2, target) \<Rightarrow> (h2, source, target)))"

definition class_access :: "string \<Rightarrow> string \<Rightarrow> xml" where
  "class_access class_name is_enabled =
     Element (QName None ''classAccesses'') [] None None
       [Element (QName None ''apexClass'') [] (Some class_name) None [],
        Element (QName None ''enabled'') [] (Some is_enabled) None []]"

text \<open>
  A target whose first \<open>classAccesses\<close> element has no children at all, next to the
  source of the doctests.
\<close>

definition example_childless_target :: "heap \<Rightarrow> heap \<times> addr" where
  "example_childless_target h =
     (case sforce_root h ''Profile'' of
        (h0, root) \<Rightarrow>
          (case SubElement h0 root (QName None ''classAccesses'') of
             (h1, parent) \<Rightarrow>
               example_class_access_element h1 root ''AccountHierarchyBuilder'' ''true''))"

definition example_childless :: "heap \<times> addr \<times> addr" where
  "example_childless =
     (case example_profile_metadata_source empty_heap of
        (h1, source) \<Rightarrow>
          (case example_childless_target h1 of
             (h2, target) \<Rightarrow> (h2, source, target)))"

text \<open>
  A file system with the two documents of the doctests in the metadata namespace and a
  file that is not well-formed, every path writable, nothing printed, an empty store.
\<close>

definition sf_class_access :: "string \<Rightarrow> string \<Rightarrow> xml" where
  "sf_class_access class_name is_enabled =
     Element (QName (Some SF_URI) ''classAccesses'') [] None None
       [Element (QName (Some SF_URI) ''apexClass'') [] (Some class_name) None [],
        Element (QName (Some SF_URI) ''enabled'') [] (Some is_enabled) None []]"

definition example_world :: world where
  "example_world =
     \<lparr>files =
        [''source.profile'' \<mapsto> Document (QName (Some SF_URI) ''Profile'')
           [sf_class_access ''ARTransactionsTest'' ''false'',
            sf_class_access ''AccountAddressManager'' ''true''],
         ''target.profile'' \<mapsto> Document (QName (Some SF_URI) ''Profile'')
           [sf_class_access ''ARTransactionsTest'' ''false'',
            sf_class_access ''AccountAddressManager'' ''true'',
            sf_class_access ''AccountHierarchyBuilder'' ''true'',
            sf_class_access ''TransactionTestData'' ''false''],
         ''broken.profile'' \<mapsto> Malformed],
      writable = (\<lambda>p. True), stdout = [], mem = empty_heap\<rparr>"

section \<open>Lemmas on pruning\<close>

lemma do_loop_Cons:
  "do_loop y q (p # pv) s =
     (case child_text (val (fst s) p) q of
        None \<Rightarrow> do_loop y q pv s
      | Some t \<Rightarrow> (case y s p t of Inl e \<Rightarrow> Inl e | Inr s' \<Rightarrow> do_loop y q pv s'))"
  by (simp add: child_text_def do_loop.simps(2) split: option.split)

declare do_loop.simps(2) [simp del]

lemma heap_eqI:
  fixes a b :: heap
  shows "root_tag a = root_tag b \<Longrightarrow> kids a = kids b \<Longrightarrow> val a = val b \<Longrightarrow> par a = par b \<Longrightarrow>
   nxt a = nxt b \<Longrightarrow> a = b"
  by (rule heap.equality) simp_all

lemma detach_False: "detach h r (\<lambda>a. False) = h"
  by (simp add: detach_def)

lemma prune_yield_hit:
  "par h p = Some r \<Longrightarrow> t = ''false'' \<or> t = ''None'' \<Longrightarrow>
   PruneFalseElements_do_yield (h, nms) p t =
     Inr (h\<lparr>kids := (kids h)(r := removeAll p (kids h r)), par := (par h)(p := None)\<rparr>, nms)"
  by (auto simp add: PruneFalseElements_do_yield_def getparent_def remove_elem_def)

lemma prune_yield_miss:
  "t \<noteq> ''false'' \<Longrightarrow> t \<noteq> ''None'' \<Longrightarrow> PruneFalseElements_do_yield s p t = Inr s"
  by (simp add: PruneFalseElements_do_yield_def)

lemma prune_do_loop:
  "distinct pv \<Longrightarrow> \<forall>p \<in> set pv. par h p = Some r \<Longrightarrow>
   do_loop PruneFalseElements_do_yield q pv (h, nms) =
     Inr (detach h r (\<lambda>a. a \<in> set pv \<and> gate_false q (val h a)), nms)"
proof (induction pv arbitrary: h)
  case Nil
  show ?case by (simp add: detach_False)
next
  case (Cons p pv)
  show ?case
  proof (cases "gate_false q (val h p)")
    case True
    then obtain t where t: "child_text (val h p) q = Some t" "t = ''false'' \<or> t = ''None''"
      by (auto simp: gate_false_def)
    let ?h1 = "h\<lparr>kids := (kids h)(r := removeAll p (kids h r)), par := (par h)(p := None)\<rparr>"
    have y: "PruneFalseElements_do_yield (h, nms) p t = Inr (?h1, nms)"
      using Cons.prems t by (intro prune_yield_hit) auto
    have ih: "do_loop PruneFalseElements_do_yield q pv (?h1, nms) =
        Inr (detach ?h1 r (\<lambda>a. a \<in> set pv \<and> gate_false q (val ?h1 a)), nms)"
      using Cons.prems by (intro Cons.IH) auto
    have eq: "detach ?h1 r (\<lambda>a. a \<in> set pv \<and> gate_false q (val ?h1 a)) =
        detach h r (\<lambda>a. a \<in> set (p # pv) \<and> gate_false q (val h a))"
      using True
      by (intro heap_eqI) (auto simp: detach_def fun_eq_iff removeAll_filter_not_eq intro!: filter_cong)
    show ?thesis
      by (simp only: do_loop_Cons fst_conv t option.case y sum.case ih eq)
  next
    case False
    have skip: "do_loop PruneFalseElements_do_yield q (p # pv) (h, nms) =
        do_loop PruneFalseElements_do_yield q pv (h, nms)"
      using False
      by (auto simp: do_loop_Cons gate_false_def prune_yield_miss split: option.split)
    have eq: "detach h r (\<lambda>a. a \<in> set pv \<and> gate_false q (val h a)) =
        detach h r (\<lambda>a. a \<in> set (p # pv) \<and> gate_false q (val h a))"
      using False by (intro heap_eqI) (auto simp: detach_def fun_eq_iff intro!: filter_cong)
    show ?thesis
      using Cons.prems by (simp only: skip flip: eq) (intro Cons.IH, auto)
  qed
qed

lemma prune_family:
  assumes "well_formed h r"
  shows "FindElements_do PruneFalseElements_do_yield tm r pn cn (h, nms) =
     Inr (detach h r (\<lambda>a. a \<in> set (kids h r) \<and> tag (val h a) = path_tag tm pn \<and>
            gate_false (path_tag tm cn) (val h a)), nms)"
proof -
  have "do_loop PruneFalseElements_do_yield (path_tag tm cn) (findall h r (path_tag tm pn)) (h, nms) =
     Inr (detach h r (\<lambda>a. a \<in> set (findall h r (path_tag tm pn)) \<and>
            gate_false (path_tag tm cn) (val h a)), nms)"
    using assms by (intro prune_do_loop) (auto simp: findall_def well_formed_def)
  moreover have "(\<lambda>a. a \<in> set (findall h r (path_tag tm pn)) \<and> gate_false (path_tag tm cn) (val h a))
     = (\<lambda>a. a \<in> set (kids h r) \<and> tag (val h a) = path_tag tm pn \<and>
            gate_false (path_tag tm cn) (val h a))"
    by (auto simp: findall_def fun_eq_iff)
  ultimately show ?thesis by (simp add: FindElements_do_def)
qed

lemma well_formed_detach:
  "well_formed h r \<Longrightarrow> well_formed (detach h r P) r"
  by (auto simp: well_formed_def detach_def)

lemma detach_detach:
  "detach (detach h r (\<lambda>a. a \<in> set (kids h r) \<and> P a)) r
      (\<lambda>a. a \<in> set (kids (detach h r (\<lambda>a. a \<in> set (kids h r) \<and> P a)) r) \<and> Q a) =
   detach h r (\<lambda>a. a \<in> set (kids h r) \<and> (P a \<or> Q a))"
  by (intro heap_eqI) (auto simp: detach_def fun_eq_iff intro!: filter_cong)

lemma val_detach [simp]: "val (detach h r P) = val h"
  by (simp add: detach_def)

lemma pruned_Nil [simp]: "pruned tm [] v = False"
  by (simp add: pruned_def)

lemma pruned_Cons:
  "map_of PARENTS n = Some cs \<Longrightarrow>
   pruned tm (n # names) v \<longleftrightarrow>
     (tag v = path_tag tm n \<and> gate_false (path_tag tm (cs ! PRUNE_CHILD)) v) \<or> pruned tm names v"
  by (simp add: pruned_def)

lemma prune_loop_eq:
  "well_formed h r \<Longrightarrow> set names \<subseteq> fst ` set PARENTS \<Longrightarrow>
   prune_loop tm names h r =
     Inr (detach h r (\<lambda>a. a \<in> set (kids h r) \<and> pruned tm names (val h a)), r)"
proof (induction names arbitrary: h)
  case Nil
  have "detach h r (\<lambda>a. a \<in> set (kids h r) \<and> False) = h"
    by (intro heap_eqI) (auto simp: detach_def fun_eq_iff)
  then show ?case by simp
next
  case (Cons n names)
  from Cons.prems obtain cs where cs: "map_of PARENTS n = Some cs"
    by (cases "map_of PARENTS n") (auto simp: map_of_eq_None_iff)
  let ?P = "\<lambda>a. tag (val h a) = path_tag tm n \<and> gate_false (path_tag tm (cs ! PRUNE_CHILD)) (val h a)"
  let ?h1 = "detach h r (\<lambda>a. a \<in> set (kids h r) \<and> ?P a)"
  have fam: "FindElements_do PruneFalseElements_do_yield tm r n (cs ! PRUNE_CHILD) (h, {}) =
      Inr (?h1, {})"
    using prune_family [OF Cons.prems(1)] by simp
  have wf1: "well_formed ?h1 r"
    using Cons.prems(1) by (rule well_formed_detach)
  have ih: "prune_loop tm names ?h1 r =
      Inr (detach ?h1 r (\<lambda>a. a \<in> set (kids ?h1 r) \<and> pruned tm names (val h a)), r)"
    using Cons.IH [OF wf1] Cons.prems(2) by simp
  have "detach ?h1 r (\<lambda>a. a \<in> set (kids ?h1 r) \<and> pruned tm names (val h a)) =
      detach h r (\<lambda>a. a \<in> set (kids h r) \<and> (?P a \<or> pruned tm names (val h a)))"
    by (rule detach_detach)
  also have "\<dots> = detach h r (\<lambda>a. a \<in> set (kids h r) \<and> pruned tm (n # names) (val h a))"
    by (simp add: pruned_Cons [OF cs])
  finally show ?case
    by (simp add: cs fam ih)
qed

lemma prune_elements_eq:
  "well_formed h r \<Longrightarrow>
   prune_elements h r tm =
     Inr (detach h r (\<lambda>a. a \<in> set (kids h r) \<and> pruned tm (map fst PARENTS) (val h a)), r)"
  by (simp add: prune_elements_def prune_loop_eq)

lemma path_tag_inject [simp]: "path_tag tm n = path_tag tm m \<longleftrightarrow> n = m"
  by (simp add: path_tag_def)

lemma distinct_PARENTS: "distinct (map fst PARENTS)"
  by (simp add: PARENTS_def)

lemma pruned_family:
  assumes "(n, cs) \<in> set PARENTS" "tag v = path_tag tm n"
  shows "pruned tm (map fst PARENTS) v \<longleftrightarrow> gate_false (path_tag tm (cs ! PRUNE_CHILD)) v"
proof -
  have m: "map_of PARENTS n = Some cs"
    using assms(1) distinct_PARENTS by (rule map_of_is_SomeI [rotated])
  show ?thesis
  proof
    assume "pruned tm (map fst PARENTS) v"
    then obtain k ds where "map_of PARENTS k = Some ds" "tag v = path_tag tm k"
        "gate_false (path_tag tm (ds ! PRUNE_CHILD)) v"
      by (auto simp: pruned_def split: option.splits)
    with assms(2) m show "gate_false (path_tag tm (cs ! PRUNE_CHILD)) v" by simp
  next
    assume "gate_false (path_tag tm (cs ! PRUNE_CHILD)) v"
    with assms m show "pruned tm (map fst PARENTS) v"
      by (force simp: pruned_def)
  qed
qed

section \<open>Lemmas on fetching and extracting\<close>

lemma in_name_set: "t \<in> name_set q vs \<longleftrightarrow> (\<exists>v \<in> set vs. child_text v q = Some t)"
  by (force simp: name_set_def split: option.splits)

lemma name_set_Nil [simp]: "name_set q [] = {}"
  by (simp add: name_set_def)

lemma name_set_Cons:
  "name_set q (v # vs) = (case child_text v q of None \<Rightarrow> {} | Some t \<Rightarrow> {t}) \<union> name_set q vs"
  by (simp add: name_set_def split: option.split)

lemma fetch_do_loop:
  "do_loop FetchElements_do_yield q pv (h, nms) = Inr (h, nms \<union> name_set q (map (val h) pv))"
  by (induction pv arbitrary: nms)
     (auto simp: do_loop_Cons FetchElements_do_yield_def name_set_Cons split: option.split)

lemma findall_values: "map (val h) (findall h r (path_tag tm pn)) = family tm pn (content h r)"
  by (simp add: findall_def family_def content_def filter_map comp_def)

lemma fetch_family:
  "FindElements_do FetchElements_do_yield tm r pn cn (h, nms) =
     Inr (h, nms \<union> name_set (path_tag tm cn) (family tm pn (content h r)))"
  by (simp add: FindElements_do_def fetch_do_loop findall_values)

lemma fetch_elements_eq:
  "map_of PARENTS pn = Some cs \<Longrightarrow>
   fetch_elements h r pn tm =
     Inr (h, name_set (path_tag tm (cs ! FETCH_CHILD)) (family tm pn (content h r)))"
  by (simp add: fetch_elements_def fetch_family)

lemma diff_elements_eq:
  "map_of PARENTS pn = Some cs \<Longrightarrow>
   diff_elements h s t pn tm =
     Inr (h, name_set (path_tag tm (cs ! FETCH_CHILD)) (family tm pn (content h t))
           - name_set (path_tag tm (cs ! FETCH_CHILD)) (family tm pn (content h s)))"
  by (simp add: diff_elements_def fetch_elements_eq)

lemma graft_Nil [simp]: "graft h r [] = h"
  by (intro heap_eqI) (auto simp: graft_def fun_eq_iff)

lemma upt_split: "[n ..< n + (a + b)] = [n ..< n + a] @ [n + a ..< n + a + b]"
  using upt_add_eq_append [of n "n + a" b] by (simp add: add.assoc)

lemma graft_graft: "graft (graft h r vs) r ws = graft h r (vs @ ws)"
proof (rule heap_eqI)
  show "kids (graft (graft h r vs) r ws) = kids (graft h r (vs @ ws))"
    by (simp add: graft_def upt_split)
  show "val (graft (graft h r vs) r ws) = val (graft h r (vs @ ws))"
    by (auto simp: graft_def fun_eq_iff nth_append)
  show "par (graft (graft h r vs) r ws) = par (graft h r (vs @ ws))"
    by (auto simp: graft_def fun_eq_iff)
qed (simp_all add: graft_def)

lemma extract_yield_hit:
  "t \<in> nms \<Longrightarrow>
   ExtractElements_do_yield out (h, nms) p t = Inr (graft h out [val h p], nms)"
  by (auto simp: ExtractElements_do_yield_def deepcopy_def append_elem_def graft_def fun_eq_iff
        intro!: heap_eqI)

lemma extract_yield_miss:
  "t \<notin> nms \<Longrightarrow> ExtractElements_do_yield out (h, nms) p t = Inr (h, nms)"
  by (simp add: ExtractElements_do_yield_def)

lemma val_graft_old: "a < nxt h \<Longrightarrow> val (graft h r vs) a = val h a"
  by (simp add: graft_def)

lemma extract_do_loop:
  "\<forall>p \<in> set pv. p < nxt h \<Longrightarrow>
   do_loop (ExtractElements_do_yield out) q pv (h, nms) =
     Inr (graft h out (filter (selected nms q) (map (val h) pv)), nms)"
proof (induction pv arbitrary: h)
  case Nil
  show ?case by simp
next
  case (Cons p pv)
  show ?case
  proof (cases "selected nms q (val h p)")
    case True
    then obtain t where t: "child_text (val h p) q = Some t" "t \<in> nms"
      by (auto simp: selected_def split: option.splits)
    let ?h1 = "graft h out [val h p]"
    have same: "map (val ?h1) pv = map (val h) pv"
      using Cons.prems by (auto simp: val_graft_old)
    have "do_loop (ExtractElements_do_yield out) q pv (?h1, nms) =
        Inr (graft ?h1 out (filter (selected nms q) (map (val ?h1) pv)), nms)"
      using Cons.prems by (intro Cons.IH) (auto simp: graft_def)
    then show ?thesis
      using True t by (simp add: do_loop_Cons extract_yield_hit same graft_graft)
  next
    case False
    have "do_loop (ExtractElements_do_yield out) q (p # pv) (h, nms) =
        do_loop (ExtractElements_do_yield out) q pv (h, nms)"
      using False
      by (auto simp: do_loop_Cons selected_def extract_yield_miss split: option.split)
    then show ?thesis
      using False Cons.prems by (simp add: Cons.IH)
  qed
qed

lemma extract_family:
  assumes "\<forall>a \<in> set (kids h t). a < nxt h"
  shows "FindElements_do (ExtractElements_do_yield out) tm t pn cn (h, nms) =
     Inr (graft h out (filter (selected nms (path_tag tm cn)) (family tm pn (content h t))), nms)"
proof -
  have "\<forall>p \<in> set (findall h t (path_tag tm pn)). p < nxt h"
    using assms by (simp add: findall_def)
  then show ?thesis
    by (simp add: FindElements_do_def extract_do_loop findall_values)
qed

lemma content_graft_other:
  "r \<noteq> out \<Longrightarrow> \<forall>a \<in> set (kids h r). a < nxt h \<Longrightarrow> content (graft h out vs) r = content h r"
  by (auto simp: content_def graft_def)

lemma content_graft_same:
  "\<forall>a \<in> set (kids h out). a < nxt h \<Longrightarrow> content (graft h out vs) out = content h out @ vs"
  by (auto simp: content_def graft_def intro!: nth_equalityI)

lemma extract_loop_eq:
  assumes "set names \<subseteq> fst ` set PARENTS" "s \<noteq> out" "t \<noteq> out"
    "\<forall>a \<in> set (kids h s). a < nxt h" "\<forall>a \<in> set (kids h t). a < nxt h"
  shows "extract_loop tm s t out names h =
     Inr (graft h out (concat (map (\<lambda>pn. extracted tm pn (content h s) (content h t)) names)), out)"
  using assms
proof (induction names arbitrary: h)
  case Nil
  show ?case by simp
next
  case (Cons n names)
  from Cons.prems(1) obtain cs where cs: "map_of PARENTS n = Some cs"
    by (cases "map_of PARENTS n") (auto simp: map_of_eq_None_iff)
  let ?vs = "extracted tm n (content h s) (content h t)"
  let ?h1 = "graft h out ?vs"
  have step: "FindElements_do (ExtractElements_do_yield out) tm t n (cs ! EXTRACT_CHILD)
      (h, name_set (path_tag tm (cs ! FETCH_CHILD)) (family tm n (content h t))
           - name_set (path_tag tm (cs ! FETCH_CHILD)) (family tm n (content h s))) =
      Inr (?h1, name_set (path_tag tm (cs ! FETCH_CHILD)) (family tm n (content h t))
           - name_set (path_tag tm (cs ! FETCH_CHILD)) (family tm n (content h s)))"
    using Cons.prems(5)
    by (simp add: extract_family extracted_def cs EXTRACT_CHILD_def FETCH_CHILD_def)
  have cs1: "content ?h1 s = content h s" and ct1: "content ?h1 t = content h t"
    using Cons.prems by (simp_all add: content_graft_other)
  have "extract_loop tm s t out names ?h1 =
     Inr (graft ?h1 out (concat (map (\<lambda>pn. extracted tm pn (content ?h1 s) (content ?h1 t)) names)), out)"
    using Cons.prems by (intro Cons.IH) (auto simp: graft_def)
  then show ?case
    by (simp add: cs diff_elements_eq [OF cs] step cs1 ct1 graft_graft)
qed

lemma extract_elements_eq:
  assumes "well_formed h s" "well_formed h t"
  shows "extract_elements h s t rn tm =
     Inr (graft (fst (sforce_root h rn)) (nxt h)
            (concat (map (\<lambda>pn. extracted tm pn (content h s) (content h t)) (map fst PARENTS))),
          nxt h)"
proof -
  define h0 where "h0 = fst (sforce_root h rn)"
  have sr: "sforce_root h rn = (h0, nxt h)"
    by (simp add: sforce_root_def h0_def)
  have s: "s \<noteq> nxt h" "t \<noteq> nxt h"
    using assms by (auto simp: well_formed_def)
  have k: "kids h0 s = kids h s" "kids h0 t = kids h t" "nxt h0 = Suc (nxt h)" "val h0 = val h"
    using s by (simp_all add: sforce_root_def h0_def)
  have c: "content h0 s = content h s" "content h0 t = content h t"
    by (simp_all add: content_def k)
  have b1: "\<forall>a \<in> set (kids h0 s). a < nxt h0"
    using assms(1) by (auto simp: k well_formed_def)
  have b2: "\<forall>a \<in> set (kids h0 t). a < nxt h0"
    using assms(2) by (auto simp: k well_formed_def)
  have sub: "set (map fst PARENTS) \<subseteq> fst ` set PARENTS"
    by simp
  have "extract_loop tm s t (nxt h) (map fst PARENTS) h0 =
     Inr (graft h0 (nxt h) (concat (map (\<lambda>pn. extracted tm pn (content h0 s) (content h0 t)) (map fst PARENTS))), nxt h)"
    by (rule extract_loop_eq [OF sub s b1 b2])
  then show ?thesis
    unfolding extract_elements_def sr c by (simp only: prod.case fst_conv)
qed

lemma map_of_PARENTS: "(pn, cs) \<in> set PARENTS \<Longrightarrow> map_of PARENTS pn = Some cs"
  using distinct_PARENTS by (rule map_of_is_SomeI)

lemma extracted_tag: "v \<in> set (extracted tm pn svs tvs) \<Longrightarrow> tag v = path_tag tm pn"
  by (auto simp: extracted_def family_def split: option.splits)

lemma filter_extracted_other:
  "pn \<noteq> n \<Longrightarrow> filter (\<lambda>v. tag v = path_tag tm pn \<and> Q v) (extracted tm n svs tvs) = []"
  by (auto simp: filter_empty_conv dest: extracted_tag)

lemma filter_extracted_same:
  "filter (\<lambda>v. tag v = path_tag tm pn \<and> Q v) (extracted tm pn svs tvs) =
   filter Q (extracted tm pn svs tvs)"
  by (auto intro!: filter_cong dest: extracted_tag)

lemma filter_concat_extracted:
  "distinct names \<Longrightarrow>
   filter (\<lambda>v. tag v = path_tag tm pn \<and> Q v) (concat (map (\<lambda>n. extracted tm n svs tvs) names)) =
   (if pn \<in> set names then filter Q (extracted tm pn svs tvs) else [])"
proof (induction names)
  case Nil
  show ?case by simp
next
  case (Cons n names)
  show ?case
  proof (cases "pn = n")
    case True
    with Cons show ?thesis by (simp add: filter_extracted_same)
  next
    case False
    with Cons show ?thesis by (simp add: filter_extracted_other)
  qed
qed

lemma filter_delta:
  "(pn, cs) \<in> set PARENTS \<Longrightarrow>
   filter (\<lambda>v. tag v = path_tag tm pn \<and> Q v) (delta tm svs tvs) = filter Q (extracted tm pn svs tvs)"
  unfolding delta_def
  by (subst filter_concat_extracted [OF distinct_PARENTS]) force

lemma extract_elements_content:
  assumes "well_formed h s" "well_formed h t"
  shows "\<exists>h'. extract_elements h s t rn tm = Inr (h', nxt h) \<and>
     content h' (nxt h) = delta tm (content h s) (content h t) \<and>
     root_tag h' (nxt h) = QName (Some SF_URI) rn \<and>
     (\<forall>a. a < nxt h \<longrightarrow> kids h' a = kids h a \<and> val h' a = val h a \<and> par h' a = par h a \<and>
        root_tag h' a = root_tag h a) \<and>
     (\<forall>a \<in> set (kids h' (nxt h)). nxt h < a \<and> a < nxt h' \<and> par h' a = Some (nxt h)) \<and>
     distinct (kids h' (nxt h)) \<and> nxt h < nxt h'"
proof -
  let ?h0 = "fst (sforce_root h rn)"
  let ?h' = "graft ?h0 (nxt h) (delta tm (content h s) (content h t))"
  have e: "extract_elements h s t rn tm = Inr (?h', nxt h)"
    using extract_elements_eq [OF assms] by (simp add: delta_def)
  have k0: "kids ?h0 (nxt h) = []" "nxt ?h0 = Suc (nxt h)"
    by (simp_all add: sforce_root_def)
  have "content ?h' (nxt h) = content ?h0 (nxt h) @ delta tm (content h s) (content h t)"
    by (rule content_graft_same) (simp add: k0)
  then have c: "content ?h' (nxt h) = delta tm (content h s) (content h t)"
    by (simp add: content_def k0)
  have f: "\<forall>a. a < nxt h \<longrightarrow> kids ?h' a = kids h a \<and> val ?h' a = val h a \<and> par ?h' a = par h a \<and>
        root_tag ?h' a = root_tag h a"
    by (simp add: graft_def sforce_root_def)
  have n: "\<forall>a \<in> set (kids ?h' (nxt h)). nxt h < a \<and> a < nxt ?h' \<and> par ?h' a = Some (nxt h)"
    by (auto simp: graft_def sforce_root_def)
  have d: "distinct (kids ?h' (nxt h))" "nxt h < nxt ?h'"
    by (simp_all add: graft_def sforce_root_def)
  have r: "root_tag ?h' (nxt h) = QName (Some SF_URI) rn"
    by (simp add: graft_def sforce_root_def)
  show ?thesis
    using e c f n d r by blast
qed

section \<open>Lemmas on loading and the main function\<close>

lemma preserves_refl [simp]: "preserves h h"
  by (simp add: preserves_def)

lemma preserves_trans: "preserves h h1 \<Longrightarrow> preserves h1 h2 \<Longrightarrow> preserves h h2"
  by (auto simp: preserves_def)

lemma preserves_well_formed:
  "preserves h h' \<Longrightarrow> well_formed h r \<Longrightarrow> well_formed h' r"
  by (auto simp: preserves_def well_formed_def)

lemma preserves_content:
  "preserves h h' \<Longrightarrow> well_formed h r \<Longrightarrow> content h' r = content h r"
  by (auto simp: preserves_def well_formed_def content_def)

lemma preserves_root_tag:
  "preserves h h' \<Longrightarrow> well_formed h r \<Longrightarrow> root_tag h' r = root_tag h r"
  by (auto simp: preserves_def well_formed_def)

lemma load_fields:
  "kids (fst (load h rt vs)) = (kids h)(nxt h := [Suc (nxt h) ..< Suc (nxt h) + length vs])"
  "val (fst (load h rt vs)) =
     (\<lambda>a. if Suc (nxt h) \<le> a \<and> a < Suc (nxt h) + length vs then vs ! (a - Suc (nxt h))
          else val h a)"
  "par (fst (load h rt vs)) =
     (\<lambda>a. if Suc (nxt h) \<le> a \<and> a < Suc (nxt h) + length vs then Some (nxt h) else par h a)"
  "nxt (fst (load h rt vs)) = Suc (nxt h) + length vs"
  "root_tag (fst (load h rt vs)) = (root_tag h)(nxt h := rt)"
  by (simp_all add: load_def graft_def fun_eq_iff)

lemma map_nth_upt: "map (\<lambda>a. vs ! (a - n)) [n ..< n + length vs] = vs"
  by (rule nth_equalityI) simp_all

lemma load_props:
  "preserves h (fst (load h rt vs))" "snd (load h rt vs) = nxt h"
  "well_formed (fst (load h rt vs)) (nxt h)" "content (fst (load h rt vs)) (nxt h) = vs"
  "root_tag (fst (load h rt vs)) (nxt h) = rt" "nxt h < nxt (fst (load h rt vs))"
proof -
  show "preserves h (fst (load h rt vs))"
    unfolding preserves_def load_fields by simp
  show "snd (load h rt vs) = nxt h"
    by (simp add: load_def)
  show "well_formed (fst (load h rt vs)) (nxt h)"
    unfolding well_formed_def load_fields by simp
  have "map (\<lambda>a. if Suc (nxt h) \<le> a \<and> a < Suc (nxt h) + length vs then vs ! (a - Suc (nxt h))
          else val h a) [Suc (nxt h) ..< Suc (nxt h) + length vs] =
      map (\<lambda>a. vs ! (a - Suc (nxt h))) [Suc (nxt h) ..< Suc (nxt h) + length vs]"
    by (rule map_cong) (simp_all del: upt_Suc)
  then show "content (fst (load h rt vs)) (nxt h) = vs"
    unfolding content_def load_fields by (simp only: fun_upd_same map_nth_upt)
  show "root_tag (fst (load h rt vs)) (nxt h) = rt"
    unfolding load_fields by simp
  show "nxt h < nxt (fst (load h rt vs))"
    unfolding load_fields by simp
qed

lemma content_detach:
  "content (detach h r (\<lambda>a. a \<in> set (kids h r) \<and> Q (val h a))) r =
   filter (\<lambda>v. \<not> Q v) (content h r)"
  by (simp add: content_def detach_def filter_map comp_def cong: filter_cong)

lemma detach_other:
  assumes "well_formed h r" "well_formed h r'" "r' \<noteq> r"
  shows "well_formed (detach h r (\<lambda>a. a \<in> set (kids h r) \<and> Q a)) r'"
    "content (detach h r (\<lambda>a. a \<in> set (kids h r) \<and> Q a)) r' = content h r'"
proof -
  let ?h' = "detach h r (\<lambda>a. a \<in> set (kids h r) \<and> Q a)"
  have k: "kids ?h' r' = kids h r'"
    using assms(3) by (simp add: detach_def)
  have d: "a \<notin> set (kids h r)" if "a \<in> set (kids h r')" for a
  proof
    assume "a \<in> set (kids h r)"
    then have "par h a = Some r" using assms(1) by (simp add: well_formed_def)
    moreover have "par h a = Some r'" using assms(2) that by (simp add: well_formed_def)
    ultimately show False using assms(3) by simp
  qed
  have p: "par ?h' a = Some r'" if "a \<in> set (kids h r')" for a
    using d [OF that] assms(2) that by (simp add: detach_def well_formed_def)
  have n: "nxt ?h' = nxt h"
    by (simp add: detach_def)
  show "well_formed ?h' r'"
    unfolding well_formed_def k n using assms(2) p by (simp add: well_formed_def)
  show "content ?h' r' = content h r'"
    unfolding content_def k by simp
qed

lemma detach_fields [simp]:
  "nxt (detach h r P) = nxt h" "root_tag (detach h r P) = root_tag h"
  by (simp_all add: detach_def)

lemma prune_tree_ok:
  assumes "fs p = Some (Document rt vs)"
  shows "\<exists>h'. prune_tree fs h p = Inr (h', nxt h) \<and> well_formed h' (nxt h) \<and>
     content h' (nxt h) = pruned_content vs \<and> root_tag h' (nxt h) = rt \<and> nxt h < nxt h' \<and>
     (\<forall>r. well_formed h r \<longrightarrow>
        well_formed h' r \<and> content h' r = content h r \<and> root_tag h' r = root_tag h r)"
proof -
  define h1 where "h1 = fst (load h rt vs)"
  define h' where "h' = detach h1 (nxt h)
      (\<lambda>a. a \<in> set (kids h1 (nxt h)) \<and> pruned False (map fst PARENTS) (val h1 a))"
  have l: "load h rt vs = (h1, nxt h)"
    using load_props(2) [of h rt vs] by (simp add: prod_eq_iff h1_def)
  have pr: "preserves h h1" and wf1: "well_formed h1 (nxt h)" and c1: "content h1 (nxt h) = vs"
    and t1: "root_tag h1 (nxt h) = rt" and n1: "nxt h < nxt h1"
    unfolding h1_def by (rule load_props)+
  have e: "prune_tree fs h p = Inr (h', nxt h)"
    unfolding prune_tree_def etree_parse_def assms h'_def
    by (simp add: l prune_elements_eq [OF wf1])
  have 1: "well_formed h' (nxt h)"
    unfolding h'_def using wf1 by (rule well_formed_detach)
  have 2: "content h' (nxt h) = pruned_content vs"
    unfolding h'_def by (simp add: content_detach c1 pruned_content_def)
  have 3: "root_tag h' (nxt h) = rt" "nxt h < nxt h'"
    unfolding h'_def by (simp_all add: t1 n1)
  have 4: "well_formed h' r \<and> content h' r = content h r \<and> root_tag h' r = root_tag h r"
    if w: "well_formed h r" for r
  proof -
    have ne: "r \<noteq> nxt h" using w by (auto simp: well_formed_def)
    have w1: "well_formed h1 r"
      using pr w by (rule preserves_well_formed)
    have c: "content h1 r = content h r"
      using pr w by (rule preserves_content)
    have t: "root_tag h1 r = root_tag h r"
      using pr w by (rule preserves_root_tag)
    show ?thesis
      unfolding h'_def using detach_other [OF wf1 w1 ne] c t by simp
  qed
  show ?thesis
    using e 1 2 3 4 by blast
qed

lemma add_label_fields:
  assumes "nxt h \<notin> set (kids h root)"
  shows "kids (add_label h root) = (kids h)(root := kids h root @ [nxt h])"
    "val (add_label h root) = (val h)(nxt h := label_element)"
    "par (add_label h root) = (par h)(nxt h := Some root)"
    "nxt (add_label h root) = Suc (nxt h)"
    "root_tag (add_label h root) = root_tag h"
  using assms
  by (simp_all add: add_label_def SubElement_def set_text_def append_elem_def label_element_def
      fun_eq_iff)

lemma add_label_content:
  assumes "\<forall>b \<in> set (kids h root). b < nxt h"
  shows "content (add_label h root) root = content h root @ [label_element]"
proof -
  have n: "nxt h \<notin> set (kids h root)"
    using assms by auto
  have "map ((val h)(nxt h := label_element)) (kids h root) = map (val h) (kids h root)"
    by (rule map_cong) (use n in auto)
  then show ?thesis
    by (simp add: content_def add_label_fields [OF n])
qed

lemma add_label_preserves:
  assumes "\<forall>b \<in> set (kids h root). b < nxt h" "n \<le> root" "n \<le> nxt h"
  shows "\<forall>a \<in> {..<n}. kids (add_label h root) a = kids h a \<and> val (add_label h root) a = val h a \<and>
      par (add_label h root) a = par h a \<and> root_tag (add_label h root) a = root_tag h a"
proof -
  have n: "nxt h \<notin> set (kids h root)"
    using assms(1) by auto
  show ?thesis
    using assms(2,3) by (simp add: add_label_fields [OF n])
qed

lemma main_prune_source_inv:
  assumes "main_prune_source w p = (Inr r, w1)"
  shows "\<exists>rt vs. files w p = Some (Document rt vs) \<and> r = nxt (mem w) \<and>
     files w1 = files w \<and> writable w1 = writable w \<and> stdout w1 = stdout w \<and>
     well_formed (mem w1) r \<and> content (mem w1) r = pruned_content vs \<and>
     root_tag (mem w1) r = rt \<and> nxt (mem w) < nxt (mem w1) \<and>
     (\<forall>r'. well_formed (mem w) r' \<longrightarrow> well_formed (mem w1) r' \<and>
        content (mem w1) r' = content (mem w) r' \<and> root_tag (mem w1) r' = root_tag (mem w) r')"
proof (cases "files w p")
  case None
  with assms show ?thesis
    by (simp add: main_prune_source_def prune_tree_def etree_parse_def)
next
  case (Some f)
  show ?thesis
  proof (cases f)
    case Malformed
    with Some assms show ?thesis
      by (simp add: main_prune_source_def prune_tree_def etree_parse_def)
  next
    case (Document rt vs)
    with Some have f: "files w p = Some (Document rt vs)" by simp
    from prune_tree_ok [where fs = "files w" and p = p and h = "mem w", OF f] obtain h' where
      e: "prune_tree (files w) (mem w) p = Inr (h', nxt (mem w))" and
      rest: "well_formed h' (nxt (mem w))" "content h' (nxt (mem w)) = pruned_content vs"
        "root_tag h' (nxt (mem w)) = rt" "nxt (mem w) < nxt h'"
        "\<forall>r. well_formed (mem w) r \<longrightarrow>
          well_formed h' r \<and> content h' r = content (mem w) r \<and> root_tag h' r = root_tag (mem w) r"
      by blast
    have "r = nxt (mem w)" "w1 = w\<lparr>mem := h'\<rparr>"
      using assms by (simp_all add: main_prune_source_def e)
    with f rest show ?thesis by simp
  qed
qed

lemma main_prune_target_eq: "main_prune_target = main_prune_source"
  by (simp add: fun_eq_iff main_prune_target_def main_prune_source_def)

lemma main_prune_source_ok:
  assumes "files w p = Some (Document rt vs)"
  shows "\<exists>w1. main_prune_source w p = (Inr (nxt (mem w)), w1)"
proof -
  from prune_tree_ok [where fs = "files w" and p = p and h = "mem w", OF assms] obtain h' where
      "prune_tree (files w) (mem w) p = Inr (h', nxt (mem w))" by blast
  then show ?thesis by (simp add: main_prune_source_def)
qed

lemma main_unfold:
  assumes "main_prune_source w sp = (Inr s, w1)" "main_prune_target w1 tp = (Inr t, w2)"
    "extract_elements (mem w2) s t (root_name op) False = Inr (h3, root)"
  shows "main w (Some sp) (Some tp) (Some op) =
     (case save_tree (w2\<lparr>mem := if \<not> is_profile op then add_label h3 root else h3\<rparr>) root op of
        (Inl e, w3) \<Rightarrow> (Inl e, w3)
      | (Inr u, w3) \<Rightarrow> (Inr 0, w3))"
  by (simp add: main_def main_check_values_def assms)

section \<open>The example documents\<close>

lemmas ex_defs = example_profile_metadata_source_def example_profile_metadata_target_def
  example_class_access_element_def example_element_def sub_element_text_def SubElement_def
  sforce_root_def empty_heap_def example_layout_assignments_def example_pair_def
  example_duplicate_target_def example_duplicates_def class_access_def
  example_childless_target_def example_childless_def

lemma ex_source_wf: "well_formed (fst (example_profile_metadata_source empty_heap)) 0"
  by (simp add: ex_defs well_formed_def)

lemma ex_layout_wf: "well_formed (fst (example_layout_assignments empty_heap)) 0"
  by (simp add: ex_defs well_formed_def)

lemma ex_pair: "example_pair = (fst example_pair, 0, 3)"
  by (simp add: ex_defs)

lemma ex_pair_wf: "well_formed (fst example_pair) 0" "well_formed (fst example_pair) 3"
  by (simp_all add: ex_defs well_formed_def)

lemma ex_pair_content:
  "content (fst example_pair) 0 =
     [class_access ''ARTransactionsTest'' ''false'', class_access ''AccountAddressManager'' ''true'']"
  "content (fst example_pair) 3 =
     [class_access ''ARTransactionsTest'' ''false'', class_access ''AccountAddressManager'' ''true'',
      class_access ''AccountHierarchyBuilder'' ''true'', class_access ''TransactionTestData'' ''false'']"
  by (simp_all add: ex_defs content_def)

lemma ex_dup_wf: "well_formed (fst example_duplicates) 0" "well_formed (fst example_duplicates) 3"
  by (simp_all add: ex_defs well_formed_def)

lemma ex_dup_content:
  "content (fst example_duplicates) 0 =
     [class_access ''ARTransactionsTest'' ''false'', class_access ''AccountAddressManager'' ''true'']"
  "content (fst example_duplicates) 3 =
     [class_access ''AccountHierarchyBuilder'' ''true'', class_access ''AccountHierarchyBuilder'' ''true'']"
  by (simp_all add: ex_defs content_def)

lemmas eval_defs = delta_def extracted_def PARENTS_def family_def name_set_def selected_def
  child_text_def find_child_def path_tag_def class_access_def EXTRACT_CHILD_def FETCH_CHILD_def

lemma ex_pair_delta:
  "delta True (content (fst example_pair) 0) (content (fst example_pair) 3) =
     [class_access ''AccountHierarchyBuilder'' ''true'', class_access ''TransactionTestData'' ''false'']"
  unfolding ex_pair_content by (simp add: eval_defs)

lemma ex_dup_delta:
  "delta True (content (fst example_duplicates) 0) (content (fst example_duplicates) 3) =
     [class_access ''AccountHierarchyBuilder'' ''true'', class_access ''AccountHierarchyBuilder'' ''true'']"
  unfolding ex_dup_content by (simp add: eval_defs)

lemma ex_pair_nxt: "nxt (fst example_pair) = 8"
  by (simp add: ex_defs)

lemma ex_dup_nxt: "nxt (fst example_duplicates) = 6"
  by (simp add: ex_defs)

lemma extract_elements_delta:
  assumes "well_formed h s" "well_formed h t"
  shows "extract_elements h s t rn tm =
     Inr (graft (fst (sforce_root h rn)) (nxt h) (delta tm (content h s) (content h t)), nxt h)"
  using extract_elements_eq [OF assms] unfolding delta_def .

lemma ex_pair_extract:
  "extract_elements (fst example_pair) 0 3 ''Profile'' True =
     Inr (graft (fst (sforce_root (fst example_pair) ''Profile'')) 8
            [class_access ''AccountHierarchyBuilder'' ''true'',
             class_access ''TransactionTestData'' ''false''], 8)"
  using extract_elements_delta [OF ex_pair_wf, of "''Profile''" True]
  by (simp only: ex_pair_delta ex_pair_nxt)

lemma ex_dup_extract:
  "extract_elements (fst example_duplicates) 0 3 ''Profile'' True =
     Inr (graft (fst (sforce_root (fst example_duplicates) ''Profile'')) 6
            [class_access ''AccountHierarchyBuilder'' ''true'',
             class_access ''AccountHierarchyBuilder'' ''true''], 6)"
  using extract_elements_delta [OF ex_dup_wf, of "''Profile''" True]
  by (simp only: ex_dup_delta ex_dup_nxt)

lemma ex_classAccesses: "(''classAccesses'', [''apexClass'', ''enabled'']) \<in> set PARENTS"
  by (simp add: PARENTS_def)

lemma ex_pair_fetch_source:
  "fetch_elements (fst example_pair) 0 ''classAccesses'' True =
      Inr (fst example_pair, {''ARTransactionsTest'', ''AccountAddressManager''})"
  unfolding fetch_elements_eq [OF map_of_PARENTS [OF ex_classAccesses]] ex_pair_content
  by (simp add: eval_defs)

lemma ex_pair_diff:
  "diff_elements (fst example_pair) 0 3 ''classAccesses'' True =
     Inr (fst example_pair, {''AccountHierarchyBuilder'', ''TransactionTestData''})"
  unfolding diff_elements_eq [OF map_of_PARENTS [OF ex_classAccesses]] ex_pair_content
  by (auto simp: eval_defs)

lemma ex_dup_diff:
  "diff_elements (fst example_duplicates) 0 3 ''classAccesses'' True =
     Inr (fst example_duplicates, {''AccountHierarchyBuilder''})"
  unfolding diff_elements_eq [OF map_of_PARENTS [OF ex_classAccesses]] ex_dup_content
  by (auto simp: eval_defs)

lemma child_text_None_iff: "child_text v q = None \<longleftrightarrow> skipped v q"
  by (simp add: child_text_def skipped_def split: option.split)

lemma name_set_without:
  assumes "child_text (val h a) q = None"
  shows "name_set q (family tm pn (content (without h r a) r)) =
     name_set q (family tm pn (content h r))"
proof -
  have "\<And>t. (\<exists>v \<in> set (family tm pn (content (without h r a) r)). child_text v q = Some t) \<longleftrightarrow>
      (\<exists>v \<in> set (family tm pn (content h r)). child_text v q = Some t)"
    using assms by (auto simp: family_def content_def without_def)
  then show ?thesis
    by (auto simp: in_name_set)
qed

lemma ex_childless_wf:
  "well_formed (fst example_childless) 0" "well_formed (fst example_childless) 3"
  by (simp_all add: ex_defs well_formed_def)

lemma delta_tag:
  assumes "v \<in> set (delta tm svs tvs)"
  shows "\<exists>n \<in> fst ` set PARENTS. tag v = path_tag tm n"
  using assms extracted_tag by (fastforce simp: delta_def)

lemma delta_no_label: "filter (\<lambda>v. local_name (tag v) = ''label'') (delta tm svs tvs) = []"
proof -
  have "local_name (tag v) \<noteq> ''label''" if "v \<in> set (delta tm svs tvs)" for v
  proof -
    from delta_tag [OF that] obtain n where n: "n \<in> fst ` set PARENTS" "tag v = path_tag tm n"
      by blast
    from n(1) have "n \<noteq> ''label''" by (auto simp: PARENTS_def)
    with n(2) show ?thesis by (simp add: path_tag_def)
  qed
  then show ?thesis by (simp add: filter_empty_conv)
qed

lemma main_after_prune:
  assumes "main_prune_source w sp = (Inr s, w1)" "main_prune_target w1 tp = (Inr t, w2)"
    "writable w op"
  shows "\<exists>w3. main w (Some sp) (Some tp) (Some op) = (Inr 0, w3) \<and>
     preserves (mem w2) (mem w3) \<and>
     kids (mem w3) s = kids (mem w2) s \<and> kids (mem w3) t = kids (mem w2) t \<and>
     content (mem w3) s = content (mem w2) s \<and> content (mem w3) t = content (mem w2) t \<and>
     (\<forall>a \<in> set (kids (mem w3) (nxt (mem w2))). nxt (mem w2) < a) \<and>
     root_tag (mem w3) (nxt (mem w2)) = QName (Some SF_URI) (root_name op) \<and>
     content (mem w3) (nxt (mem w2)) =
       delta False (content (mem w2) s) (content (mem w2) t) @
         (if is_profile op then [] else [label_element]) \<and>
     files w3 = (files w)(op \<mapsto> Document (root_tag (mem w3) (nxt (mem w2)))
                                  (content (mem w3) (nxt (mem w2)))) \<and>
     stdout w3 = stdout w"
proof -
  from main_prune_source_inv [OF assms(1)]
  have 1: "files w1 = files w" "writable w1 = writable w" "stdout w1 = stdout w"
    "well_formed (mem w1) s"
    by auto
  from main_prune_source_inv [OF assms(2) [unfolded main_prune_target_eq]]
  have 2: "files w2 = files w1" "writable w2 = writable w1" "stdout w2 = stdout w1"
    "well_formed (mem w2) t"
    "\<forall>r'. well_formed (mem w1) r' \<longrightarrow> well_formed (mem w2) r'"
    by auto
  have wfs: "well_formed (mem w2) s"
    using 1(4) 2(5) by simp
  define h2 where "h2 = mem w2"
  define root where "root = nxt h2"
  have wf: "well_formed h2 s" "well_formed h2 t"
    using wfs 2(4) by (simp_all add: h2_def)
  from extract_elements_content [OF wf, of "root_name op" False]
  obtain h3 where e: "extract_elements h2 s t (root_name op) False = Inr (h3, root)"
    and c3: "content h3 root = delta False (content h2 s) (content h2 t)"
    and t3: "root_tag h3 root = QName (Some SF_URI) (root_name op)"
    and f3: "\<forall>a. a < nxt h2 \<longrightarrow> kids h3 a = kids h2 a \<and> val h3 a = val h2 a \<and>
        par h3 a = par h2 a \<and> root_tag h3 a = root_tag h2 a"
    and k3: "\<forall>a \<in> set (kids h3 root). nxt h2 < a \<and> a < nxt h3 \<and> par h3 a = Some root"
    and n3: "nxt h2 < nxt h3"
    unfolding root_def by blast
  define h4 where "h4 = (if \<not> is_profile op then add_label h3 root else h3)"
  have b3: "\<forall>b \<in> set (kids h3 root). b < nxt h3"
    using k3 by simp
  have nk: "nxt h3 \<notin> set (kids h3 root)"
    using b3 by auto
  have p4: "preserves h2 h4"
  proof (cases "is_profile op")
    case True
    then show ?thesis
      using f3 n3 by (simp add: h4_def preserves_def)
  next
    case False
    have "\<forall>a \<in> {..<nxt h2}. kids (add_label h3 root) a = kids h3 a \<and>
        val (add_label h3 root) a = val h3 a \<and> par (add_label h3 root) a = par h3 a \<and>
        root_tag (add_label h3 root) a = root_tag h3 a"
      using b3 n3 by (intro add_label_preserves) (simp_all add: root_def)
    then show ?thesis
      using False f3 n3 by (simp add: h4_def preserves_def add_label_fields [OF nk])
  qed
  have c4: "content h4 root =
      delta False (content h2 s) (content h2 t) @ (if is_profile op then [] else [label_element])"
    using b3 by (simp add: h4_def c3 add_label_content)
  have t4: "root_tag h4 root = QName (Some SF_URI) (root_name op)"
    by (simp add: h4_def t3 add_label_fields [OF nk])
  have k4: "\<forall>a \<in> set (kids h4 root). nxt h2 < a"
    using k3 n3 by (auto simp: h4_def add_label_fields [OF nk])
  have ks: "kids h4 s = kids h2 s" "kids h4 t = kids h2 t"
    using p4 wf by (auto simp: preserves_def well_formed_def)
  have cs: "content h4 s = content h2 s" "content h4 t = content h2 t"
    using p4 wf by (simp_all add: preserves_content)
  have m: "main w (Some sp) (Some tp) (Some op) =
     (case save_tree (w2\<lparr>mem := h4\<rparr>) root op of
        (Inl e, w3) \<Rightarrow> (Inl e, w3)
      | (Inr u, w3) \<Rightarrow> (Inr 0, w3))"
    unfolding h4_def by (rule main_unfold [OF assms(1,2) e [unfolded h2_def]])
  have wr: "writable w2 op"
    using assms(3) 1(2) 2(2) by simp
  let ?w3 = "w2\<lparr>mem := h4, files := (files w2)(op \<mapsto> Document (root_tag h4 root) (content h4 root))\<rparr>"
  have "main w (Some sp) (Some tp) (Some op) = (Inr 0, ?w3)"
    unfolding m by (simp add: save_tree_def wr)
  moreover have "files ?w3 = (files w)(op \<mapsto> Document (root_tag h4 root) (content h4 root))"
    by (simp add: 1 2)
  moreover have "stdout ?w3 = stdout w" "mem ?w3 = h4"
    by (simp_all add: 1 2)
  ultimately show ?thesis
    using p4 ks cs k4 t4 c4 unfolding h2_def [symmetric] root_def [symmetric]
    by (intro exI [of _ ?w3]) simp
qed

lemma main_output:
  assumes "files w sp = Some (Document st svs)" "files w tp = Some (Document tt tvs)"
    "writable w op"
  shows "\<exists>w'. main w (Some sp) (Some tp) (Some op) = (Inr 0, w') \<and>
     files w' = (files w)(op \<mapsto> Document (QName (Some SF_URI) (root_name op))
        (delta False (pruned_content svs) (pruned_content tvs) @
           (if is_profile op then [] else [label_element]))) \<and>
     stdout w' = stdout w"
proof -
  from main_prune_source_ok [OF assms(1)] obtain w1 where
    s: "main_prune_source w sp = (Inr (nxt (mem w)), w1)" by blast
  from main_prune_source_inv [OF s] assms(1)
  have 1: "files w1 = files w" "well_formed (mem w1) (nxt (mem w))"
    "content (mem w1) (nxt (mem w)) = pruned_content svs"
    by auto
  have "files w1 tp = Some (Document tt tvs)"
    using assms(2) 1(1) by simp
  from main_prune_source_ok [OF this] obtain w2 where
    t: "main_prune_target w1 tp = (Inr (nxt (mem w1)), w2)"
    unfolding main_prune_target_eq by blast
  from main_prune_source_inv [OF t [unfolded main_prune_target_eq]] assms(2) 1(1)
  have 2: "content (mem w2) (nxt (mem w1)) = pruned_content tvs"
    "\<forall>r'. well_formed (mem w1) r' \<longrightarrow> content (mem w2) r' = content (mem w1) r'"
    by auto
  have 3: "content (mem w2) (nxt (mem w)) = pruned_content svs"
    using 1(2,3) 2(2) by simp
  from main_after_prune [OF s t assms(3)] show ?thesis
    unfolding 2(1) 3 by auto
qed

lemma ex_world_files:
  "files example_world ''source.profile'' = Some (Document (QName (Some SF_URI) ''Profile'')
           [sf_class_access ''ARTransactionsTest'' ''false'',
            sf_class_access ''AccountAddressManager'' ''true''])"
  "files example_world ''target.profile'' = Some (Document (QName (Some SF_URI) ''Profile'')
           [sf_class_access ''ARTransactionsTest'' ''false'',
            sf_class_access ''AccountAddressManager'' ''true'',
            sf_class_access ''AccountHierarchyBuilder'' ''true'',
            sf_class_access ''TransactionTestData'' ''false''])"
  "files example_world ''broken.profile'' = Some Malformed"
  "files example_world ''missing.profile'' = None"
  "writable example_world p" "stdout example_world = []" "nxt (mem example_world) = 0"
  by (simp_all add: example_world_def empty_heap_def)

lemmas prune_eval_defs = pruned_content_def pruned_def gate_false_def PRUNE_CHILD_def PARENTS_def
  child_text_def find_child_def path_tag_def sf_class_access_def

lemma ex_world_pruned:
  "pruned_content [sf_class_access ''ARTransactionsTest'' ''false'',
            sf_class_access ''AccountAddressManager'' ''true''] =
     [sf_class_access ''AccountAddressManager'' ''true'']"
  "pruned_content [sf_class_access ''ARTransactionsTest'' ''false'',
            sf_class_access ''AccountAddressManager'' ''true'',
            sf_class_access ''AccountHierarchyBuilder'' ''true'',
            sf_class_access ''TransactionTestData'' ''false''] =
     [sf_class_access ''AccountAddressManager'' ''true'',
      sf_class_access ''AccountHierarchyBuilder'' ''true'']"
  by (simp_all add: prune_eval_defs)

lemma ex_world_delta:
  "delta False [sf_class_access ''AccountAddressManager'' ''true'']
     [sf_class_access ''AccountAddressManager'' ''true'',
      sf_class_access ''AccountHierarchyBuilder'' ''true''] =
     [sf_class_access ''AccountHierarchyBuilder'' ''true'']"
  by (simp add: delta_def extracted_def PARENTS_def family_def name_set_def selected_def
      child_text_def find_child_def path_tag_def sf_class_access_def EXTRACT_CHILD_def
      FETCH_CHILD_def)

section \<open>Pruning\<close>

text \<open>
  C3. Prune exact-string policy: in every well-formed document, for every family of
  \<open>PARENTS\<close>, \<open>prune_elements\<close> detaches an element of the family from its parent
  if and only if the first child with the family's prune tag exists and its text is exactly
  \<open>''false''\<close> or \<open>''None''\<close>; in every other case (no such child, no text, or any
  other text, \<open>''0''\<close> and \<open>''False''\<close> included) the element stays a child of the root,
  and its value is unchanged either way. No exception is raised.
\<close>

theorem prune_exact_string_policy:
  assumes "well_formed h root" "(parent_name, children) \<in> set PARENTS"
    "a \<in> set (kids h root)" "tag (val h a) = path_tag test_mode parent_name"
  shows "\<exists>h'. prune_elements h root test_mode = Inr (h', root) \<and> val h' a = val h a \<and>
     (if \<exists>c. find_child (val h a) (path_tag test_mode (children ! PRUNE_CHILD)) = Some c \<and>
            (el_text c = Some ''false'' \<or> el_text c = Some ''None'')
      then a \<notin> set (kids h' root) \<and> getparent h' a = None
      else a \<in> set (kids h' root) \<and> getparent h' a = Some root)"
proof -
  let ?h' = "detach h root (\<lambda>a. a \<in> set (kids h root) \<and> pruned test_mode (map fst PARENTS) (val h a))"
  have p: "pruned test_mode (map fst PARENTS) (val h a) \<longleftrightarrow>
      (\<exists>c. find_child (val h a) (path_tag test_mode (children ! PRUNE_CHILD)) = Some c \<and>
            (el_text c = Some ''false'' \<or> el_text c = Some ''None''))"
    using pruned_family [OF assms(2,4)]
    by (auto simp: gate_false_def child_text_def split: option.splits)
  have "par h a = Some root"
    using assms(1,3) by (simp add: well_formed_def)
  then show ?thesis
    using assms(3) p
    by (simp add: prune_elements_eq [OF assms(1)] detach_def getparent_def)
qed

theorem prune_exact_string_policy_witness:
  "\<exists>h'. prune_elements (fst (example_profile_metadata_source empty_heap)) 0 True = Inr (h', 0) \<and>
     1 \<notin> set (kids h' 0) \<and> getparent h' 1 = None"
proof -
  have "(''classAccesses'', [''apexClass'', ''enabled'']) \<in> set PARENTS"
    by (simp add: PARENTS_def)
  moreover have "1 \<in> set (kids (fst (example_profile_metadata_source empty_heap)) 0)"
    by (simp add: ex_defs)
  moreover have "tag (val (fst (example_profile_metadata_source empty_heap)) 1) =
      path_tag True ''classAccesses''"
    by (simp add: ex_defs path_tag_def)
  moreover have "\<exists>c. find_child (val (fst (example_profile_metadata_source empty_heap)) 1)
      (path_tag True ([''apexClass'', ''enabled''] ! PRUNE_CHILD)) = Some c \<and>
            (el_text c = Some ''false'' \<or> el_text c = Some ''None'')"
    by (simp add: ex_defs path_tag_def find_child_def PRUNE_CHILD_def)
  ultimately show ?thesis
    using prune_exact_string_policy [OF ex_source_wf, of "''classAccesses''"
        "[''apexClass'', ''enabled'']" 1 True]
    by (simp only: if_True) blast
qed

text \<open>
  C5. Prune idempotence: when \<open>prune_elements\<close> has pruned a well-formed document,
  pruning the result again returns the same store and the same root.
\<close>

theorem prune_idempotent:
  assumes "well_formed h root" "prune_elements h root test_mode = Inr (h', root')"
  shows "prune_elements h' root' test_mode = Inr (h', root')"
proof -
  let ?P = "\<lambda>a. a \<in> set (kids h root) \<and> pruned test_mode (map fst PARENTS) (val h a)"
  have h': "h' = detach h root ?P" and r: "root' = root"
    using assms by (auto simp add: prune_elements_eq)
  have wf: "well_formed h' root"
    unfolding h' using assms(1) by (rule well_formed_detach)
  have "detach h' root (\<lambda>a. a \<in> set (kids h' root) \<and> pruned test_mode (map fst PARENTS) (val h' a)) = h'"
    unfolding h' by (intro heap_eqI) (auto simp: detach_def fun_eq_iff intro: filter_id_conv [THEN iffD2])
  then show ?thesis
    by (simp add: r prune_elements_eq [OF wf])
qed

theorem prune_idempotent_witness:
  "\<exists>h'. prune_elements (fst (example_profile_metadata_source empty_heap)) 0 True = Inr (h', 0) \<and>
     prune_elements h' 0 True = Inr (h', 0)"
proof -
  obtain h' r where p: "prune_elements (fst (example_profile_metadata_source empty_heap)) 0 True = Inr (h', r)"
    using prune_elements_eq [OF ex_source_wf] by blast
  then have "r = 0" using prune_elements_eq [OF ex_source_wf, of True] by simp
  with p prune_idempotent [OF ex_source_wf p] show ?thesis by blast
qed

text \<open>
  C7, as stated, fails: a \<open>layoutAssignments\<close> element is looked up for a child with
  the tag \<open>None\<close>, and the element below has one, whose text \<open>''None''\<close> is not
  \<open>''false''\<close>; \<open>prune_elements\<close> removes the element.
\<close>

theorem layoutAssignments_pruned_counterexample:
  "2 \<in> set (kids (fst (example_layout_assignments empty_heap)) 0) \<and>
   tag (val (fst (example_layout_assignments empty_heap)) 2) = path_tag True ''layoutAssignments'' \<and>
   child_text (val (fst (example_layout_assignments empty_heap)) 2) (path_tag True ''None'') = Some ''None'' \<and>
   \<not> isl (prune_elements (fst (example_layout_assignments empty_heap)) 0 True) \<and>
   2 \<notin> set (kids (fst (projr (prune_elements (fst (example_layout_assignments empty_heap)) 0 True))) 0)"
  by (simp add: prune_elements_eq [OF ex_layout_wf] detach_def)
     (simp add: ex_defs pruned_def PARENTS_def path_tag_def child_text_def find_child_def
        gate_false_def PRUNE_CHILD_def)

text \<open>
  C7, amended. Every \<open>layoutAssignments\<close> element of a well-formed document that has no
  child with the tag \<open>None\<close>, or whose first such child has no text or a text other than
  \<open>''false''\<close> and \<open>''None''\<close>, survives \<open>prune_elements\<close>: it stays a child of the
  root, with its value unchanged.
\<close>

theorem layoutAssignments_survive:
  assumes "well_formed h root" "a \<in> set (kids h root)"
    "tag (val h a) = path_tag test_mode ''layoutAssignments''"
    "\<not> (\<exists>c. find_child (val h a) (path_tag test_mode ''None'') = Some c \<and>
            (el_text c = Some ''false'' \<or> el_text c = Some ''None''))"
  shows "\<exists>h'. prune_elements h root test_mode = Inr (h', root) \<and> a \<in> set (kids h' root) \<and>
     getparent h' a = Some root \<and> val h' a = val h a"
proof -
  have e: "(''layoutAssignments'', [''layout'', ''None'']) \<in> set PARENTS"
    by (simp add: PARENTS_def)
  have "\<not> pruned test_mode (map fst PARENTS) (val h a)"
    using pruned_family [OF e assms(3)] assms(4)
    by (auto simp: gate_false_def child_text_def PRUNE_CHILD_def split: option.splits)
  moreover have "par h a = Some root"
    using assms(1,2) by (simp add: well_formed_def)
  ultimately show ?thesis
    using assms(2)
    by (simp add: prune_elements_eq [OF assms(1)] detach_def getparent_def)
qed

theorem layoutAssignments_survive_witness:
  "\<exists>h'. prune_elements (fst (example_layout_assignments empty_heap)) 0 True = Inr (h', 0) \<and>
     1 \<in> set (kids h' 0) \<and> getparent h' 1 = Some 0"
proof -
  have "1 \<in> set (kids (fst (example_layout_assignments empty_heap)) 0)"
    by (simp add: ex_defs)
  moreover have "tag (val (fst (example_layout_assignments empty_heap)) 1) =
      path_tag True ''layoutAssignments''"
    by (simp add: ex_defs path_tag_def)
  moreover have "\<not> (\<exists>c. find_child (val (fst (example_layout_assignments empty_heap)) 1)
      (path_tag True ''None'') = Some c \<and> (el_text c = Some ''false'' \<or> el_text c = Some ''None''))"
    by (simp add: ex_defs path_tag_def find_child_def)
  ultimately show ?thesis
    using layoutAssignments_survive [OF ex_layout_wf, of 1 True] by blast
qed

section \<open>Fetching, diffing and extracting\<close>

text \<open>
  C4. Non-superset diff: for every store, every two roots and every family of
  \<open>PARENTS\<close>, \<open>diff_elements\<close> returns the names \<open>fetch_elements\<close> finds in the
  target minus the names it finds in the source, which are exactly the names of the target
  that are not names of the source. Nothing is required of the two sets: whether or not the
  target's set contains the source's, no exception is raised, and the store is unchanged.
\<close>

theorem diff_is_set_difference:
  assumes "(parent_name, children) \<in> set PARENTS"
  shows "\<exists>source_names target_names.
     fetch_elements h source parent_name test_mode = Inr (h, source_names) \<and>
     fetch_elements h target parent_name test_mode = Inr (h, target_names) \<and>
     diff_elements h source target parent_name test_mode = Inr (h, target_names - source_names) \<and>
     target_names - source_names = {n. n \<in> target_names \<and> n \<notin> source_names}"
proof -
  have m: "map_of PARENTS parent_name = Some children"
    using assms by (rule map_of_PARENTS)
  show ?thesis
    by (auto simp: fetch_elements_eq [OF m] diff_elements_eq [OF m])
qed

theorem diff_is_set_difference_witness:
  "diff_elements (fst example_pair) 0 3 ''classAccesses'' True =
     Inr (fst example_pair, {''AccountHierarchyBuilder'', ''TransactionTestData''}) \<and>
   diff_elements (fst example_pair) 3 0 ''classAccesses'' True = Inr (fst example_pair, {})"
proof -
  have p: "(''classAccesses'', [''apexClass'', ''enabled'']) \<in> set PARENTS"
    by (simp add: PARENTS_def)
  have s: "fetch_elements (fst example_pair) 0 ''classAccesses'' True =
      Inr (fst example_pair, {''ARTransactionsTest'', ''AccountAddressManager''})"
    unfolding fetch_elements_eq [OF map_of_PARENTS [OF p]] ex_pair_content
    by (simp add: eval_defs)
  have t: "fetch_elements (fst example_pair) 3 ''classAccesses'' True =
      Inr (fst example_pair, {''ARTransactionsTest'', ''AccountAddressManager'',
        ''AccountHierarchyBuilder'', ''TransactionTestData''})"
    unfolding fetch_elements_eq [OF map_of_PARENTS [OF p]] ex_pair_content
    by (simp add: eval_defs)
  show ?thesis
    using diff_is_set_difference [OF p, where h = "fst example_pair" and source = 0 and target = 3
        and test_mode = True]
      diff_is_set_difference [OF p, where h = "fst example_pair" and source = 3 and target = 0
        and test_mode = True]
    by (auto simp: s t)
qed

text \<open>
  C2. Extract exclusivity: for well-formed source and target and every family of
  \<open>PARENTS\<close>, no child of the output root of \<open>extract_elements\<close> that belongs to the
  family has a key child whose text is in the source's fetch name set for the family.
\<close>

theorem extract_exclusivity:
  assumes "well_formed h source" "well_formed h target"
    "(parent_name, children) \<in> set PARENTS"
    "fetch_elements h source parent_name test_mode = Inr (h1, source_names)"
    "extract_elements h source target output_name test_mode = Inr (h', root)"
    "a \<in> set (kids h' root)" "tag (val h' a) = path_tag test_mode parent_name"
    "find_child (val h' a) (path_tag test_mode (children ! EXTRACT_CHILD)) = Some child"
    "el_text child = Some key_text"
  shows "key_text \<notin> source_names"
proof -
  have m: "map_of PARENTS parent_name = Some children"
    using assms(3) by (rule map_of_PARENTS)
  from extract_elements_content [OF assms(1,2), of output_name test_mode] assms(5)
  have c: "content h' root = delta test_mode (content h source) (content h target)"
    by auto
  let ?q = "path_tag test_mode (children ! EXTRACT_CHILD)"
  have ct: "child_text (val h' a) ?q = Some key_text"
    using assms(8,9) by (simp add: child_text_def)
  have "val h' a \<in> set (filter (\<lambda>v. tag v = path_tag test_mode parent_name \<and> True)
      (delta test_mode (content h source) (content h target)))"
    using assms(6,7) c [symmetric] by (simp add: content_def)
  then have "val h' a \<in> set (extracted test_mode parent_name (content h source) (content h target))"
    unfolding filter_delta [OF assms(3)] by simp
  then have "key_text \<notin> name_set (path_tag test_mode (children ! FETCH_CHILD))
      (family test_mode parent_name (content h source))"
    using ct by (simp add: extracted_def m selected_def)
  then show ?thesis
    using assms(4) by (auto simp: fetch_elements_eq [OF m])
qed

theorem extract_exclusivity_witness:
  "extract_elements (fst example_pair) 0 3 ''Profile'' True =
     Inr (graft (fst (sforce_root (fst example_pair) ''Profile'')) 8
            [class_access ''AccountHierarchyBuilder'' ''true'',
             class_access ''TransactionTestData'' ''false''], 8) \<and>
   ''AccountHierarchyBuilder'' \<notin> {''ARTransactionsTest'', ''AccountAddressManager''}"
proof -
  let ?h' = "graft (fst (sforce_root (fst example_pair) ''Profile'')) 8
            [class_access ''AccountHierarchyBuilder'' ''true'',
             class_access ''TransactionTestData'' ''false'']"
  have a: "9 \<in> set (kids ?h' 8)"
    by (simp add: graft_def sforce_root_def ex_pair_nxt)
  have v: "val ?h' 9 = class_access ''AccountHierarchyBuilder'' ''true''"
    by (simp add: graft_def sforce_root_def ex_pair_nxt)
  have t: "tag (val ?h' 9) = path_tag True ''classAccesses''"
    unfolding v by (simp add: class_access_def path_tag_def)
  have f: "find_child (val ?h' 9) (path_tag True ([''apexClass'', ''enabled''] ! EXTRACT_CHILD)) =
      Some (Element (QName None ''apexClass'') [] (Some ''AccountHierarchyBuilder'') None [])"
    unfolding v by (simp add: class_access_def path_tag_def find_child_def EXTRACT_CHILD_def)
  have "''AccountHierarchyBuilder'' \<notin> {''ARTransactionsTest'', ''AccountAddressManager''}"
    using extract_exclusivity [OF ex_pair_wf ex_classAccesses ex_pair_fetch_source
        ex_pair_extract a t f]
    by simp
  with ex_pair_extract show ?thesis by simp
qed

text \<open>
  C1, as stated, fails: when the target names one class in two \<open>classAccesses\<close>
  elements and the source does not name it, the name is in the delta set and the output
  holds two elements with that name, not one.
\<close>

theorem extract_duplicates_counterexample:
  "well_formed (fst example_duplicates) 0 \<and> well_formed (fst example_duplicates) 3 \<and>
   diff_elements (fst example_duplicates) 0 3 ''classAccesses'' True =
     Inr (fst example_duplicates, {''AccountHierarchyBuilder''}) \<and>
   \<not> isl (extract_elements (fst example_duplicates) 0 3 ''Profile'' True) \<and>
   content (fst (projr (extract_elements (fst example_duplicates) 0 3 ''Profile'' True)))
     (snd (projr (extract_elements (fst example_duplicates) 0 3 ''Profile'' True))) =
     [class_access ''AccountHierarchyBuilder'' ''true'',
      class_access ''AccountHierarchyBuilder'' ''true'']"
  by (simp add: ex_dup_wf ex_dup_diff ex_dup_extract)
     (simp add: content_def graft_def sforce_root_def ex_dup_nxt)

text \<open>
  C1, amended. Extract completeness: for well-formed source and target, every family of
  \<open>PARENTS\<close> and every name in the delta set of the family, the elements of the output
  of \<open>extract_elements\<close> that belong to the family and have the name as their key text
  are the elements of the target that do, equal as values (tag, attributes, text, tail and
  all children), in the same order and as many: at least one, and exactly one when the
  target holds exactly one. They are new elements, none of them a child of the target, and
  the target keeps its children.
\<close>

theorem extract_completeness:
  assumes "well_formed h source" "well_formed h target"
    "(parent_name, children) \<in> set PARENTS"
    "diff_elements h source target parent_name test_mode = Inr (h1, names)"
    "name \<in> names"
  shows "\<exists>h' root. extract_elements h source target output_name test_mode = Inr (h', root) \<and>
     filter (\<lambda>v. tag v = path_tag test_mode parent_name \<and>
                child_text v (path_tag test_mode (children ! EXTRACT_CHILD)) = Some name)
       (content h' root) =
     filter (\<lambda>v. tag v = path_tag test_mode parent_name \<and>
                child_text v (path_tag test_mode (children ! EXTRACT_CHILD)) = Some name)
       (content h target) \<and>
     filter (\<lambda>v. tag v = path_tag test_mode parent_name \<and>
                child_text v (path_tag test_mode (children ! EXTRACT_CHILD)) = Some name)
       (content h target) \<noteq> [] \<and>
     set (kids h' root) \<inter> set (kids h target) = {} \<and>
     content h' target = content h target"
proof -
  have m: "map_of PARENTS parent_name = Some children"
    using assms(3) by (rule map_of_PARENTS)
  let ?q = "path_tag test_mode (children ! EXTRACT_CHILD)"
  let ?P = "\<lambda>v. child_text v ?q = Some name"
  let ?T = "name_set ?q (family test_mode parent_name (content h target))"
  let ?S = "name_set ?q (family test_mode parent_name (content h source))"
  have names: "names = ?T - ?S"
    using assms(4) by (auto simp: diff_elements_eq [OF m] EXTRACT_CHILD_def FETCH_CHILD_def)
  from extract_elements_content [OF assms(1,2), of output_name test_mode]
  obtain h' where e: "extract_elements h source target output_name test_mode = Inr (h', nxt h)"
    and c: "content h' (nxt h) = delta test_mode (content h source) (content h target)"
    and f: "\<forall>a. a < nxt h \<longrightarrow> kids h' a = kids h a \<and> val h' a = val h a \<and> par h' a = par h a \<and>
        root_tag h' a = root_tag h a"
    and n: "\<forall>a \<in> set (kids h' (nxt h)). nxt h < a \<and> a < nxt h' \<and> par h' a = Some (nxt h)"
    by blast
  have "filter (\<lambda>v. tag v = path_tag test_mode parent_name \<and> ?P v) (content h' (nxt h)) =
      filter ?P (extracted test_mode parent_name (content h source) (content h target))"
    unfolding c by (rule filter_delta [OF assms(3)])
  also have "\<dots> = filter ?P (family test_mode parent_name (content h target))"
    using assms(5) names
    by (auto simp: extracted_def m selected_def EXTRACT_CHILD_def FETCH_CHILD_def
        intro!: filter_cong)
  also have "\<dots> = filter (\<lambda>v. tag v = path_tag test_mode parent_name \<and> ?P v) (content h target)"
    by (auto simp: family_def intro!: filter_cong)
  finally have 1: "filter (\<lambda>v. tag v = path_tag test_mode parent_name \<and> ?P v) (content h' (nxt h)) =
      filter (\<lambda>v. tag v = path_tag test_mode parent_name \<and> ?P v) (content h target)" .
  have "name \<in> ?T"
    using assms(5) names by simp
  then have 2: "filter (\<lambda>v. tag v = path_tag test_mode parent_name \<and> ?P v) (content h target) \<noteq> []"
    by (auto simp: in_name_set family_def filter_empty_conv)
  have tb: "target < nxt h" "\<forall>a \<in> set (kids h target). a < nxt h"
    using assms(2) by (simp_all add: well_formed_def)
  have 3: "set (kids h' (nxt h)) \<inter> set (kids h target) = {}"
    using n tb by fastforce
  have 4: "content h' target = content h target"
    using f tb by (simp add: content_def)
  show ?thesis
    using e 1 2 3 4 by blast
qed

theorem extract_completeness_witness:
  "\<exists>h' root. extract_elements (fst example_pair) 0 3 ''Profile'' True = Inr (h', root) \<and>
     filter (\<lambda>v. tag v = path_tag True ''classAccesses'' \<and>
                child_text v (path_tag True ''apexClass'') = Some ''AccountHierarchyBuilder'')
       (content h' root) = [class_access ''AccountHierarchyBuilder'' ''true'']"
proof -
  have n: "''AccountHierarchyBuilder'' \<in> {''AccountHierarchyBuilder'', ''TransactionTestData''}"
    by simp
  have "filter (\<lambda>v. tag v = path_tag True ''classAccesses'' \<and>
                child_text v (path_tag True ([''apexClass'', ''enabled''] ! EXTRACT_CHILD)) =
                  Some ''AccountHierarchyBuilder'')
       (content (fst example_pair) 3) = [class_access ''AccountHierarchyBuilder'' ''true'']"
    unfolding ex_pair_content by (simp add: eval_defs)
  moreover have "[''apexClass'', ''enabled''] ! EXTRACT_CHILD = ''apexClass''"
    by (simp add: EXTRACT_CHILD_def)
  ultimately show ?thesis
    using extract_completeness [OF ex_pair_wf ex_classAccesses ex_pair_diff n, of "''Profile''"]
    by auto
qed

section \<open>The traversal\<close>

text \<open>
  C10. Traversal skip: an element whose named child is absent, or whose first named child
  has no text, is passed over by the loop of \<open>FindElements.do\<close> whatever the callback
  is, a callback that raises included: the loop continues as if the element were not in the
  list. So in well-formed documents a family element without a gate text survives
  \<open>prune_elements\<close>, and a family element without a key text adds nothing to the name
  set of \<open>fetch_elements\<close> (the set is the one of the document without the element) and
  is not copied by \<open>extract_elements\<close>; each of the three returns without an exception.
\<close>

theorem traversal_skips_missing_child:
  assumes "well_formed h source" "well_formed h target"
    "(parent_name, children) \<in> set PARENTS"
    "a \<in> set (kids h target)" "tag (val h a) = path_tag test_mode parent_name"
  shows "(skipped (val (fst s) p) q \<longrightarrow> do_loop do_yield q (p # pv) s = do_loop do_yield q pv s) \<and>
     (skipped (val h a) (path_tag test_mode (children ! PRUNE_CHILD)) \<longrightarrow>
        (\<exists>h'. prune_elements h target test_mode = Inr (h', target) \<and> a \<in> set (kids h' target))) \<and>
     (skipped (val h a) (path_tag test_mode (children ! FETCH_CHILD)) \<longrightarrow>
        (\<exists>names. fetch_elements h target parent_name test_mode = Inr (h, names) \<and>
           fetch_elements (without h target a) target parent_name test_mode =
             Inr (without h target a, names)) \<and>
        (\<exists>h' root. extract_elements h source target output_name test_mode = Inr (h', root) \<and>
           val h a \<notin> set (content h' root)))"
proof (intro conjI impI)
  assume "skipped (val (fst s) p) q"
  then show "do_loop do_yield q (p # pv) s = do_loop do_yield q pv s"
    by (simp add: do_loop_Cons child_text_None_iff [symmetric])
next
  assume "skipped (val h a) (path_tag test_mode (children ! PRUNE_CHILD))"
  then have "\<not> pruned test_mode (map fst PARENTS) (val h a)"
    using pruned_family [OF assms(3,5)]
    by (simp add: gate_false_def child_text_None_iff [symmetric])
  then show "\<exists>h'. prune_elements h target test_mode = Inr (h', target) \<and> a \<in> set (kids h' target)"
    using assms(4) by (simp add: prune_elements_eq [OF assms(2)] detach_def)
next
  assume k: "skipped (val h a) (path_tag test_mode (children ! FETCH_CHILD))"
  have m: "map_of PARENTS parent_name = Some children"
    using assms(3) by (rule map_of_PARENTS)
  show "\<exists>names. fetch_elements h target parent_name test_mode = Inr (h, names) \<and>
           fetch_elements (without h target a) target parent_name test_mode =
             Inr (without h target a, names)"
    using k by (simp add: fetch_elements_eq [OF m] name_set_without child_text_None_iff)
next
  assume k: "skipped (val h a) (path_tag test_mode (children ! FETCH_CHILD))"
  have m: "map_of PARENTS parent_name = Some children"
    using assms(3) by (rule map_of_PARENTS)
  from extract_elements_content [OF assms(1,2), of output_name test_mode]
  obtain h' where e: "extract_elements h source target output_name test_mode = Inr (h', nxt h)"
    and c: "content h' (nxt h) = delta test_mode (content h source) (content h target)"
    by blast
  have "val h a \<notin> set (content h' (nxt h))"
  proof
    assume "val h a \<in> set (content h' (nxt h))"
    then have "val h a \<in> set (filter (\<lambda>v. tag v = path_tag test_mode parent_name \<and> True)
        (delta test_mode (content h source) (content h target)))"
      using assms(5) c by simp
    then have "val h a \<in> set (extracted test_mode parent_name (content h source) (content h target))"
      unfolding filter_delta [OF assms(3)] by simp
    then have "child_text (val h a) (path_tag test_mode (children ! EXTRACT_CHILD)) \<noteq> None"
      by (auto simp: extracted_def m selected_def split: option.splits)
    with k show False
      by (simp add: child_text_None_iff EXTRACT_CHILD_def FETCH_CHILD_def)
  qed
  with e show "\<exists>h' root. extract_elements h source target output_name test_mode = Inr (h', root) \<and>
           val h a \<notin> set (content h' root)"
    by blast
qed

theorem traversal_skips_missing_child_witness:
  "do_loop PruneFalseElements_do_yield (path_tag True ''enabled'') [4] (fst example_childless, {}) =
     Inr (fst example_childless, {}) \<and>
   (\<exists>h'. prune_elements (fst example_childless) 3 True = Inr (h', 3) \<and> 4 \<in> set (kids h' 3)) \<and>
   (\<exists>names. fetch_elements (fst example_childless) 3 ''classAccesses'' True =
        Inr (fst example_childless, names) \<and>
      fetch_elements (without (fst example_childless) 3 4) 3 ''classAccesses'' True =
        Inr (without (fst example_childless) 3 4, names)) \<and>
   (\<exists>h' root. extract_elements (fst example_childless) 0 3 ''Profile'' True = Inr (h', root) \<and>
      val (fst example_childless) 4 \<notin> set (content h' root))"
proof -
  have v: "val (fst example_childless) 4 = Element (QName None ''classAccesses'') [] None None []"
    by (simp add: ex_defs)
  have a: "4 \<in> set (kids (fst example_childless) 3)"
    by (simp add: ex_defs)
  have t: "tag (val (fst example_childless) 4) = path_tag True ''classAccesses''"
    by (simp add: v path_tag_def)
  have s: "skipped (val (fst example_childless) 4) q" for q
    by (simp add: v skipped_def find_child_def)
  show ?thesis
    using traversal_skips_missing_child [OF ex_childless_wf ex_classAccesses a t,
        where s = "(fst example_childless, {})" and p = 4 and pv = "[]"
          and q = "path_tag True ''enabled''" and do_yield = PruneFalseElements_do_yield
          and output_name = "''Profile''"]
    by (simp add: s)
qed

section \<open>The run\<close>

text \<open>
  C6, as stated, fails: \<open>is_profile\<close> tests whether the path contains
  \<open>''.profile''\<close>, so a path that ends in \<open>''.permissionset''\<close> and has
  \<open>''.profile''\<close> in a directory name gets the root \<open>Profile\<close> and no label.
\<close>

theorem permissionset_path_with_profile_counterexample:
  "suffix ''.permissionset'' ''release.profiles/Guest.permissionset'' \<and>
   files (snd (main example_world (Some ''source.profile'') (Some ''target.profile'')
                 (Some ''release.profiles/Guest.permissionset'')))
     ''release.profiles/Guest.permissionset'' =
     Some (Document (QName (Some SF_URI) ''Profile'')
             [sf_class_access ''AccountHierarchyBuilder'' ''true''])"
proof -
  have p: "is_profile ''release.profiles/Guest.permissionset''"
    by (simp add: is_profile_def sublist_Cons_right)
  from main_output [OF ex_world_files(1,2,5), of "''release.profiles/Guest.permissionset''"]
  show ?thesis
    by (auto simp: ex_world_pruned ex_world_delta root_name_def p suffix_def)
qed

text \<open>
  C6, amended. Output root naming and label injection: when the source and the target
  parse and the output path can be written, \<open>main\<close> returns 0 and the output file holds
  the extracted elements under a root in the metadata namespace; if the output path
  contains \<open>''.profile''\<close>, as every path that ends in it does, the root is
  \<open>Profile\<close> and nothing else is appended; otherwise the root is \<open>PermissionSet\<close>
  and one \<open>label\<close> element with the text \<open>''Community Hub Guest''\<close> is appended
  after them. No extracted element is named \<open>label\<close>, so it is the only one.
\<close>

theorem output_root_and_label:
  assumes "files w source_path = Some (Document source_tag source_elements)"
    "files w target_path = Some (Document target_tag target_elements)"
    "writable w output_path"
  shows "\<exists>w'. main w (Some source_path) (Some target_path) (Some output_path) = (Inr 0, w') \<and>
     files w' output_path =
       Some (Document
         (QName (Some SF_URI) (if is_profile output_path then ''Profile'' else ''PermissionSet''))
         (delta False (pruned_content source_elements) (pruned_content target_elements) @
            (if is_profile output_path then [] else [label_element]))) \<and>
     filter (\<lambda>v. local_name (tag v) = ''label'')
       (delta False (pruned_content source_elements) (pruned_content target_elements)) = [] \<and>
     (suffix ''.profile'' output_path \<longrightarrow> is_profile output_path)"
proof -
  from main_output [OF assms] obtain w' where
    "main w (Some source_path) (Some target_path) (Some output_path) = (Inr 0, w')"
    "files w' = (files w)(output_path \<mapsto> Document (QName (Some SF_URI) (root_name output_path))
        (delta False (pruned_content source_elements) (pruned_content target_elements) @
           (if is_profile output_path then [] else [label_element])))"
    by blast
  then show ?thesis
    by (auto simp: root_name_def delta_no_label is_profile_def)
qed

theorem output_root_and_label_witness:
  "\<exists>w'. main example_world (Some ''source.profile'') (Some ''target.profile'')
           (Some ''upgrade.permissionset'') = (Inr 0, w') \<and>
     files w' ''upgrade.permissionset'' =
       Some (Document (QName (Some SF_URI) ''PermissionSet'')
               [sf_class_access ''AccountHierarchyBuilder'' ''true'', label_element])"
proof -
  have p: "\<not> is_profile ''upgrade.permissionset''"
    by (simp add: is_profile_def sublist_Cons_right)
  from output_root_and_label [OF ex_world_files(1,2,5), of "''upgrade.permissionset''"]
  show ?thesis
    by (auto simp: ex_world_pruned ex_world_delta p)
qed

text \<open>
  C8. Frame property: when both documents are parsed and pruned and the output path can be
  written, the rest of the run (\<open>extract_elements\<close>, the label, \<open>save_tree\<close>) returns
  0 and changes nothing that was allocated when pruning ended: the source and the target
  keep their children and their children's values, the output root is new and all its
  children are new elements, and the file system differs from the initial one at the
  output path only. \<open>fetch_elements\<close> and \<open>diff_elements\<close> return the store they
  were given, for every store and every family.
\<close>

theorem delta_engine_frame:
  assumes "main_prune_source w source_path = (Inr source_root, w1)"
    "main_prune_target w1 target_path = (Inr target_root, w2)"
    "writable w output_path"
  shows "\<exists>w3. main w (Some source_path) (Some target_path) (Some output_path) = (Inr 0, w3) \<and>
     preserves (mem w2) (mem w3) \<and>
     kids (mem w3) source_root = kids (mem w2) source_root \<and>
     kids (mem w3) target_root = kids (mem w2) target_root \<and>
     content (mem w3) source_root = content (mem w2) source_root \<and>
     content (mem w3) target_root = content (mem w2) target_root \<and>
     (\<forall>a \<in> set (kids (mem w3) (nxt (mem w2))). nxt (mem w2) < a) \<and>
     files w3 = (files w)(output_path \<mapsto> Document (root_tag (mem w3) (nxt (mem w2)))
                                  (content (mem w3) (nxt (mem w2)))) \<and>
     (parent_name \<in> fst ` set PARENTS \<longrightarrow>
        (\<exists>names. fetch_elements h r parent_name test_mode = Inr (h, names)) \<and>
        (\<exists>names. diff_elements h r r' parent_name test_mode = Inr (h, names)))"
proof -
  have "(\<exists>names. fetch_elements h r parent_name test_mode = Inr (h, names)) \<and>
        (\<exists>names. diff_elements h r r' parent_name test_mode = Inr (h, names))"
    if "parent_name \<in> fst ` set PARENTS"
  proof -
    from that obtain cs where "(parent_name, cs) \<in> set PARENTS" by auto
    then have "map_of PARENTS parent_name = Some cs" by (rule map_of_PARENTS)
    then show ?thesis by (simp add: fetch_elements_eq diff_elements_eq)
  qed
  with main_after_prune [OF assms] show ?thesis by blast
qed

theorem delta_engine_frame_witness:
  "\<exists>w3. main example_world (Some ''source.profile'') (Some ''target.profile'')
           (Some ''upgrade.profile'') = (Inr 0, w3) \<and>
     files w3 ''source.profile'' = files example_world ''source.profile'' \<and>
     files w3 ''target.profile'' = files example_world ''target.profile'' \<and>
     content (mem w3) 0 = [sf_class_access ''AccountAddressManager'' ''true'']"
proof -
  from main_prune_source_ok [OF ex_world_files(1)] obtain w1 where
    s: "main_prune_source example_world ''source.profile'' = (Inr 0, w1)"
    by (auto simp: ex_world_files)
  from main_prune_source_inv [OF s] ex_world_files(1)
  have 1: "files w1 = files example_world" "well_formed (mem w1) 0"
    "content (mem w1) 0 = [sf_class_access ''AccountAddressManager'' ''true'']"
    by (auto simp: ex_world_pruned)
  have "files w1 ''target.profile'' = Some (Document (QName (Some SF_URI) ''Profile'')
           [sf_class_access ''ARTransactionsTest'' ''false'',
            sf_class_access ''AccountAddressManager'' ''true'',
            sf_class_access ''AccountHierarchyBuilder'' ''true'',
            sf_class_access ''TransactionTestData'' ''false''])"
    using ex_world_files(2) 1(1) by simp
  from main_prune_source_ok [OF this] obtain w2 where
    t: "main_prune_target w1 ''target.profile'' = (Inr (nxt (mem w1)), w2)"
    unfolding main_prune_target_eq by blast
  from main_prune_source_inv [OF t [unfolded main_prune_target_eq]]
  have 2: "\<forall>r'. well_formed (mem w1) r' \<longrightarrow> content (mem w2) r' = content (mem w1) r'"
    by auto
  have 3: "content (mem w2) 0 = [sf_class_access ''AccountAddressManager'' ''true'']"
    using 1(2,3) 2 by simp
  from delta_engine_frame [OF s t ex_world_files(5), of "''upgrade.profile''"]
  obtain w3 where m: "main example_world (Some ''source.profile'') (Some ''target.profile'')
           (Some ''upgrade.profile'') = (Inr 0, w3)"
    and c: "content (mem w3) 0 = content (mem w2) 0"
    and f: "files w3 = (files example_world)(''upgrade.profile'' \<mapsto>
        Document (root_tag (mem w3) (nxt (mem w2))) (content (mem w3) (nxt (mem w2))))"
    by blast
  have "files w3 ''source.profile'' = files example_world ''source.profile''"
    "files w3 ''target.profile'' = files example_world ''target.profile''"
    unfolding f by simp_all
  with m c 3 show ?thesis
    by simp
qed

text \<open>
  C9. The code at a source that is not well-formed: a missing source file is reported
  (\<open>path is not available.\<close>) and the run ends with \<open>exit(1)\<close>; a source file that
  is not well-formed raises \<open>XMLSyntaxError\<close>, which \<open>except IOError\<close> does not
  catch, so the exception leaves \<open>main\<close> unhandled, with nothing printed and nothing
  written.
\<close>

theorem malformed_source_escapes:
  "(files w source_path = None \<longrightarrow>
      main w (Some source_path) (Some target_path) (Some output_path) =
        (Inl (SystemExit 1), w\<lparr>stdout := stdout w @ [source_path @ '' is not available.'']\<rparr>)) \<and>
   (files w source_path = Some Malformed \<longrightarrow>
      main w (Some source_path) (Some target_path) (Some output_path) = (Inl XMLSyntaxError, w))"
  by (simp add: main_def main_check_values_def main_prune_source_def prune_tree_def
      etree_parse_def)

theorem malformed_source_escapes_witness:
  "main example_world (Some ''broken.profile'') (Some ''target.profile'') (Some ''upgrade.profile'') =
     (Inl XMLSyntaxError, example_world) \<and>
   main example_world (Some ''missing.profile'') (Some ''target.profile'') (Some ''upgrade.profile'') =
     (Inl (SystemExit 1), example_world\<lparr>stdout := [''missing.profile is not available.'']\<rparr>)"
  using malformed_source_escapes [of example_world "''broken.profile''" "''target.profile''"
      "''upgrade.profile''"]
    malformed_source_escapes [of example_world "''missing.profile''" "''target.profile''"
      "''upgrade.profile''"]
  by (simp add: ex_world_files)

end
